theory Spec2Isabelle
  imports Main "HOL-Library.Word" "HOL-Library.Monad_Syntax" "HOL-Library.Sublist"
begin

section \<open>rteval\_parserd: the submission queue dispatcher\<close>

text \<open>
  A shallow embedding of \<^verbatim>\<open>server/parser/rteval_parserd.c\<close>. The daemon talks to
  a database, a POSIX message queue, the C library and the thread library. None of these
  is part of the file, so every call into them takes its result from a script of
  responses, and every call is written to a trace, in the order the program makes them.
\<close>

subsection \<open>Data\<close>

text \<open>
  Modelled from the spec: \<^verbatim>\<open>parsethread.h\<close>, which declares \<^verbatim>\<open>parseJob_t\<close> and
  its status enumeration, is not among the sources. The spec gives a job an identifier, a
  file reference and a status that is \<open>none\<close> (nothing eligible) or \<open>claimed\<close>.
\<close>

datatype jobStatus = jbNONE | jbAVAIL

record parseJob =
  status :: jobStatus
  submid :: int
  filename :: string

text \<open>Pointers that are only tested against \<^verbatim>\<open>NULL\<close> are addresses, 0 being \<^verbatim>\<open>NULL\<close>.\<close>

type_synonym ptr = nat

definition NULL :: ptr where
  "NULL = 0"

definition DEFAULT_MSG_MAX :: "32 word" where
  "DEFAULT_MSG_MAX = 5"

definition XMLPARSER_XSL :: string where
  "XMLPARSER_XSL = ''xmlparser.xsl''"

definition EAGAIN :: int where
  "EAGAIN = 11"

datatype signum = SIGINT | SIGTERM

datatype sighandler = SIG_DFL | Sigcatch

text \<open>
  An argument of a \<^verbatim>\<open>fprintf\<close>: an integer, a string, or the text
  \<^verbatim>\<open>strerror\<close> gives for an error number.
\<close>

datatype farg = ArgI int | ArgS string | ArgErr int

datatype libcall = XsltInit | XmlInitParser | EFreeValues | XsltFreeStylesheet
  | XmlCleanupParser | XsltCleanupGlobals

datatype slotobj = Thrdata | ThreadAttr | Thread

datatype event =
    Fprintf string "farg list"
  | Signal signum sighandler
  | Fopen string string
  | Fread nat
  | Fclose ptr
  | DbGetJob "parseJob option"
  | FreeJob parseJob
  | DbWaitNotification string int
  | MqSend parseJob int int
  | Sleep nat int
  | Lib libcall
  | ReadConfig string string
  | XsltParseStylesheetFile string ptr
  | MqOpen string int int
  | DbConnect ptr
  | Calloc nat
  | Malloc slotobj nat ptr
  | PthreadAttrInit nat
  | PthreadAttrSetJoinable nat
  | PthreadCreate nat int
  | PthreadJoin nat int
  | PthreadAttrDestroy nat
  | FreeSlot slotobj nat
  | FreeArray slotobj
  | MqClose int int
  | MqUnlink string int
  | DbDisconnect ptr

text \<open>
  What the environment answers to a call: an integer result, a failure with the error
  number it leaves in \<^verbatim>\<open>errno\<close>, a pointer, a job, the bytes of a read, a
  configuration. \<open>RSignal\<close> is a termination signal that arrives while the program
  waits for the answer.
\<close>

datatype response =
    RSignal signum
  | RInt int
  | RErr int
  | RPtr ptr
  | RJob "parseJob option"
  | RData string
  | RConfig "(string \<times> string) list"

record world =
  shutdown :: int
  errno :: int
  handlers :: "signum \<Rightarrow> sighandler"
  script :: "response list"
  trace :: "event list"

definition emit :: "event \<Rightarrow> world \<Rightarrow> world" where
  "emit e w = w\<lparr>trace := trace w @ [e]\<rparr>"

definition fprintf :: "string \<Rightarrow> farg list \<Rightarrow> world \<Rightarrow> world" where
  "fprintf fmt args w = emit (Fprintf fmt args) w"

definition signal :: "signum \<Rightarrow> sighandler \<Rightarrow> world \<Rightarrow> world" where
  "signal s h w = emit (Signal s h) (w\<lparr>handlers := (handlers w)(s := h)\<rparr>)"

subsection \<open>The signal catcher\<close>

definition sigcatch :: "signum \<Rightarrow> world \<Rightarrow> world" where
  "sigcatch sig w =
     (let w1 = (if shutdown w = 0
                then fprintf ''** SIGNAL ** Starting shutting down\<newline>'' [] (w\<lparr>shutdown := 1\<rparr>)
                else fprintf ''** SIGNAL ** Shutdown in progress ... please be patient ...\<newline>'' [] w)
      in signal SIGTERM Sigcatch (signal SIGINT Sigcatch w1))"

subsection \<open>Calls into the environment\<close>

text \<open>
  The next answer of the environment. Signals that arrive before it run the installed
  handler first. \<open>None\<close> means that the call does not return in this run: the script
  has ended, or a signal met its default action, which terminates the process.
\<close>

fun next_response :: "response list \<Rightarrow> world \<Rightarrow> (response \<times> world) option" where
  "next_response [] w = None"
| "next_response (RSignal s # rs) w =
     (case handlers w s of
        SIG_DFL \<Rightarrow> None
      | Sigcatch \<Rightarrow> next_response rs (sigcatch s w))"
| "next_response (r # rs) w = Some (r, w\<lparr>script := rs\<rparr>)"

definition await :: "world \<Rightarrow> (response \<times> world) option" where
  "await w = next_response (script w) w"

subsection \<open>Reading the message queue limit\<close>

text \<open>
  The C library's \<^verbatim>\<open>atoi\<close>, which is \<^verbatim>\<open>strtol\<close> in base 10 cut to an
  \<^verbatim>\<open>int\<close>: white space is skipped, a sign is read, then digits up to the first
  character that is none. \<^verbatim>\<open>strtol\<close> stops at the ends of \<^verbatim>\<open>long\<close>.
\<close>

definition isspace :: "char \<Rightarrow> bool" where
  "isspace c = (c \<in> set [CHR '' '', CHR 0x09, CHR 0x0A, CHR 0x0B, CHR 0x0C, CHR 0x0D])"

definition isdigit :: "char \<Rightarrow> bool" where
  "isdigit c = (48 \<le> (of_char c :: nat) \<and> (of_char c :: nat) \<le> 57)"

fun digits :: "int \<Rightarrow> string \<Rightarrow> int" where
  "digits acc [] = acc"
| "digits acc (c # cs) =
     (if isdigit c then digits (acc * 10 + (of_char c - 48)) cs else acc)"

definition strtol :: "string \<Rightarrow> int" where
  "strtol s =
     (case dropWhile isspace s of
        [] \<Rightarrow> 0
      | c # cs \<Rightarrow>
          if c = CHR ''-'' then max (- (2 ^ 63)) (- digits 0 cs)
          else if c = CHR ''+'' then min (2 ^ 63 - 1) (digits 0 cs)
          else min (2 ^ 63 - 1) (digits 0 (c # cs)))"

definition atoi :: "string \<Rightarrow> int" where
  "atoi s = sint (word_of_int (strtol s) :: 32 word)"

text \<open>
  Modelled from the spec: \<^verbatim>\<open>eurephia_nullsafe.h\<close>, which defines the macro
  \<^verbatim>\<open>atoi_nullsafe\<close>, is not among the sources. The spec has the limit read and
  parsed; the macro is \<^verbatim>\<open>atoi\<close> with a null pointer read as 0.
\<close>

definition atoi_nullsafe :: "string option \<Rightarrow> int" where
  "atoi_nullsafe p = (case p of None \<Rightarrow> 0 | Some s \<Rightarrow> atoi s)"

text \<open>The characters of a buffer up to its first NUL.\<close>

definition c_str :: "string \<Rightarrow> string" where
  "c_str buf = takeWhile (\<lambda>c. c \<noteq> CHR 0x00) buf"

definition fopen :: "string \<Rightarrow> string \<Rightarrow> world \<Rightarrow> (ptr \<times> world) option" where
  "fopen path mode w =
     (case await (emit (Fopen path mode) w) of
        Some (RPtr p, w') \<Rightarrow> Some (p, w')
      | Some (RErr e, w') \<Rightarrow> Some (NULL, w'\<lparr>errno := e\<rparr>)
      | _ \<Rightarrow> None)"

text \<open>
  \<^verbatim>\<open>fread(&buf, 1, n, fp)\<close> into a buffer of zeros: the count of bytes read and the
  buffer after it.
\<close>

definition fread :: "string \<Rightarrow> nat \<Rightarrow> ptr \<Rightarrow> world \<Rightarrow> (nat \<times> string \<times> world) option" where
  "fread buf n fp w =
     (case await (emit (Fread n) w) of
        Some (RData bytes, w') \<Rightarrow>
          Some (length (take n bytes), take n bytes @ drop (length (take n bytes)) buf, w')
      | Some (RErr e, w') \<Rightarrow> Some (0, buf, w'\<lparr>errno := e\<rparr>)
      | _ \<Rightarrow> None)"

definition get_mqueue_msg_max :: "world \<Rightarrow> (32 word \<times> world) option" where
  "get_mqueue_msg_max w = do {
     (fp, w1) \<leftarrow> fopen ''/proc/sys/fs/mqueue/msg_max'' ''r'' w;
     if fp = NULL then
       Some (DEFAULT_MSG_MAX,
         fprintf ''** ERROR **  %s\<newline>'' [ArgErr (errno w1)]
           (fprintf ''** ERROR **  Could not open /proc/sys/fs/mqueue/msg_max, defaulting to %i\<newline>''
              [ArgI (uint DEFAULT_MSG_MAX)] w1))
     else do {
       (n, buf, w2) \<leftarrow> fread (replicate 130 (CHR 0x00)) 128 fp w1;
       let (msg_max, w3) =
         (if n < 1 then
            (DEFAULT_MSG_MAX,
             fprintf ''** ERROR **  %s\<newline>'' [ArgErr (errno w2)]
               (fprintf ''** ERROR **  Could not read /proc/sys/fs/mqueue/msg_max, defaulting to %i\<newline>''
                  [ArgI (uint DEFAULT_MSG_MAX)] w2))
          else
            (let msg_max = (word_of_int (atoi_nullsafe (Some (c_str buf))) :: 32 word) in
             if msg_max < 1 then
               (DEFAULT_MSG_MAX,
                fprintf ''** ERROR **  Failed to parse /proc/sys/fs/mqueue/msg_max,defaulting to %i\<newline>''
                  [ArgI (uint DEFAULT_MSG_MAX)] w2)
             else (msg_max, w2)));
       Some (msg_max, emit (Fclose fp) w3)
     }
   }"

subsection \<open>The submission queue poller\<close>

text \<open>
  Modelled from the spec: the database layer (\<^verbatim>\<open>pgsql.h\<close>) is not among the
  sources. The spec gives its interface: a claim returns a job, whose status is \<open>none\<close>
  when nothing is eligible; a wait blocks until a notification arrives or the flag is set
  and returns a count, which is not positive on failure. \<^verbatim>\<open>main\<close> and the poller
  also test the job pointer, so the claim may return \<^verbatim>\<open>NULL\<close>. What the calls
  return is up to the environment.
\<close>

definition db_get_submissionqueue_job :: "world \<Rightarrow> (parseJob option \<times> world) option" where
  "db_get_submissionqueue_job w =
     (case await w of
        Some (RJob j, w') \<Rightarrow> Some (j, emit (DbGetJob j) w')
      | _ \<Rightarrow> None)"

text \<open>
  \<^verbatim>\<open>db_wait_notification\<close> is given the address of the shutdown flag: a signal
  that arrives while it waits sets the flag before the call returns.
\<close>

definition db_wait_notification :: "string \<Rightarrow> world \<Rightarrow> (int \<times> world) option" where
  "db_wait_notification listenfor w =
     (case await w of
        Some (RInt n, w') \<Rightarrow> Some (n, emit (DbWaitNotification listenfor n) w')
      | _ \<Rightarrow> None)"

text \<open>
  \<^verbatim>\<open>mq_send\<close> returns an integer and leaves \<^verbatim>\<open>errno\<close> alone, or fails
  with -1 and an error number.
\<close>

definition mq_send :: "parseJob \<Rightarrow> world \<Rightarrow> (int \<times> world) option" where
  "mq_send job w =
     (case await w of
        Some (RInt n, w') \<Rightarrow> Some (n, emit (MqSend job n (errno w')) w')
      | Some (RErr e, w') \<Rightarrow> Some (- 1, emit (MqSend job (- 1) e) (w'\<lparr>errno := e\<rparr>))
      | _ \<Rightarrow> None)"

text \<open>
  \<^verbatim>\<open>sleep\<close> returns when the time is over, or early when a signal was caught; the
  C library then leaves the error number of the interrupted system call in
  \<^verbatim>\<open>errno\<close>. The event records \<^verbatim>\<open>errno\<close> as the call leaves it.
\<close>

definition sleep :: "nat \<Rightarrow> world \<Rightarrow> world option" where
  "sleep seconds w =
     (case await w of
        Some (RInt left, w') \<Rightarrow> Some (emit (Sleep seconds (errno w')) w')
      | Some (RErr e, w') \<Rightarrow> Some (emit (Sleep seconds e) (w'\<lparr>errno := e\<rparr>))
      | _ \<Rightarrow> None)"

definition free_nullsafe_job :: "parseJob \<Rightarrow> world \<Rightarrow> world" where
  "free_nullsafe_job job w = emit (FreeJob job) w"

text \<open>How a block of the function ends: it falls through, or jumps to \<^verbatim>\<open>exit\<close> with a result code.\<close>

datatype flow = Next | GotoExit int

lemma next_response_shorter:
  "next_response rs w = Some (r, w') \<Longrightarrow> length (script w') < length rs"
  by (induction rs w rule: next_response.induct) (auto split: sighandler.splits)

lemma await_shorter:
  "await w = Some (r, w') \<Longrightarrow> length (script w') < length (script w)"
  unfolding await_def by (rule next_response_shorter)

lemma script_emit: "script (emit e w) = script w"
  by (simp add: emit_def)

lemma script_fprintf: "script (fprintf fmt args w) = script w"
  by (simp add: fprintf_def emit_def)

lemma mq_send_shorter:
  "mq_send job w = Some (res, w') \<Longrightarrow> length (script w') < length (script w)"
  by (auto simp: mq_send_def script_emit split: option.splits prod.splits response.splits
      dest: await_shorter)

lemma sleep_shorter:
  "sleep n w = Some w' \<Longrightarrow> length (script w') < length (script w)"
  by (auto simp: sleep_def script_emit split: option.splits prod.splits response.splits
      dest: await_shorter)

lemma db_get_submissionqueue_job_shorter:
  "db_get_submissionqueue_job w = Some (j, w') \<Longrightarrow> length (script w') < length (script w)"
  by (auto simp: db_get_submissionqueue_job_def script_emit
      split: option.splits prod.splits response.splits dest: await_shorter)

lemma db_wait_notification_shorter:
  "db_wait_notification l w = Some (n, w') \<Longrightarrow> length (script w') < length (script w)"
  by (auto simp: db_wait_notification_def script_emit
      split: option.splits prod.splits response.splits dest: await_shorter)

text \<open>
  One round of the \<^verbatim>\<open>do ... while\<close> that sends a job to the queue (lines 144 to
  160), with the test at its end: \<open>None\<close> when the test sends the program round again.
\<close>

definition send_round :: "parseJob \<Rightarrow> world \<Rightarrow> (flow option \<times> world) option" where
  "send_round job w = do {
     (res, w1) \<leftarrow> mq_send job (w\<lparr>errno := 0\<rparr>);
     if res < 0 \<and> errno w1 \<noteq> EAGAIN then
       Some (Some (GotoExit 2),
         (fprintf ''** ERROR **  Could not send parse job to the queue\<newline>'' [] w1)
           \<lparr>shutdown := 1\<rparr>)
     else do {
       w2 \<leftarrow> (if errno w1 = EAGAIN
              then sleep 60
                (fprintf ''** WARNING **  Message queue filled up.  Will not add new messages to queue for the next 60 seconds\<newline>''
                   [] w1)
              else Some w1);
       Some (if errno w2 = EAGAIN then None else Some Next, w2)
     }
   }"

lemma send_round_shorter:
  assumes "send_round job w = Some (f, w')"
  shows "length (script w') < length (script w)"
proof -
  from assms obtain res w1 where send: "mq_send job (w\<lparr>errno := 0\<rparr>) = Some (res, w1)"
    by (auto simp: send_round_def split: Option.bind_splits)
  from mq_send_shorter [OF send] have l1: "length (script w1) < length (script w)"
    by simp
  show ?thesis
  proof (cases "res < 0 \<and> errno w1 \<noteq> EAGAIN")
    case True
    with assms send l1 show ?thesis
      by (auto simp: send_round_def script_fprintf)
  next
    case False
    with assms send l1 show ?thesis
      by (auto simp: send_round_def script_fprintf
          split: Option.bind_splits if_splits dest!: sleep_shorter)
  qed
qed

function send_loop :: "parseJob \<Rightarrow> world \<Rightarrow> (flow \<times> world) option" where
  "send_loop job w =
     (case send_round job w of
        None \<Rightarrow> None
      | Some (None, w') \<Rightarrow> send_loop job w'
      | Some (Some f, w') \<Rightarrow> Some (f, w'))"
  by pat_completeness auto
termination
  by (relation "measure (\<lambda>(job, w). length (script w))")
    (auto dest: send_round_shorter)

declare send_loop.simps [simp del]

lemma send_loop_shorter:
  "send_loop job w = Some (f, w') \<Longrightarrow> length (script w') < length (script w)"
proof (induction job w rule: send_loop.induct)
  case (1 job w)
  from "1.prems" obtain g w1 where r: "send_round job w = Some (g, w1)"
    by (auto simp: send_loop.simps [of job w] split: option.splits)
  from send_round_shorter [OF r] have l: "length (script w1) < length (script w)" .
  show ?case
  proof (cases g)
    case None
    with "1.prems" r have "send_loop job w1 = Some (f, w')"
      by (simp add: send_loop.simps [of job w])
    from "1.IH" [OF r refl None this] l show ?thesis
      by simp
  next
    case (Some f')
    with "1.prems" r l show ?thesis
      by (simp add: send_loop.simps [of job w])
  qed
qed

text \<open>
  The body of the \<^verbatim>\<open>while\<close> of \<^verbatim>\<open>process_submission_queue\<close> (lines 123 to
  161): it falls through to the next test of the flag, or jumps to \<^verbatim>\<open>exit\<close>.
\<close>

definition poll_body :: "world \<Rightarrow> (flow \<times> world) option" where
  "poll_body w = do {
     (job, w1) \<leftarrow> db_get_submissionqueue_job w;
     case job of
       None \<Rightarrow>
         Some (GotoExit 1,
           (fprintf ''** ERROR **  Failed to get submission queue job - shutting down\<newline>'' [] w1)
             \<lparr>shutdown := 1\<rparr>)
     | Some j \<Rightarrow>
         if status j = jbNONE then do {
           (n, w2) \<leftarrow> db_wait_notification ''rteval_submq'' (free_nullsafe_job j w1);
           if n < 1 then
             Some (GotoExit 1,
               (fprintf ''** ERROR **  Failed to wait for DB notification\<newline>'' [] w2)
                 \<lparr>shutdown := 1\<rparr>)
           else Some (Next, w2)
         }
         else do {
           (f, w2) \<leftarrow> send_loop j
             (fprintf ''** New job: submid %i, %s\<newline>'' [ArgI (submid j), ArgS (filename j)] w1);
           case f of
             GotoExit rc \<Rightarrow> Some (GotoExit rc, w2)
           | Next \<Rightarrow> Some (Next, free_nullsafe_job j w2)
         }
   }"

lemma poll_body_shorter:
  assumes "poll_body w = Some (f, w')"
  shows "length (script w') < length (script w)"
proof -
  from assms obtain job w1 where get: "db_get_submissionqueue_job w = Some (job, w1)"
    by (auto simp: poll_body_def split: Option.bind_splits)
  from db_get_submissionqueue_job_shorter [OF get]
  have l1: "length (script w1) < length (script w)" .
  show ?thesis
  proof (cases job)
    case None
    with assms get l1 show ?thesis
      by (auto simp: poll_body_def script_fprintf)
  next
    case (Some j)
    show ?thesis
    proof (cases "status j = jbNONE")
      case True
      with assms get Some l1 show ?thesis
        by (auto simp: poll_body_def script_fprintf free_nullsafe_job_def script_emit
            split: Option.bind_splits if_splits dest!: db_wait_notification_shorter)
    next
      case False
      with assms get Some l1 show ?thesis
        by (auto simp: poll_body_def script_fprintf free_nullsafe_job_def script_emit
            split: Option.bind_splits flow.splits dest!: send_loop_shorter)
    qed
  qed
qed

text \<open>
  \<^verbatim>\<open>process_submission_queue\<close>: the result code and the world it leaves. \<open>None\<close>
  is a run that does not come back, waiting for an answer the script does not hold.
\<close>

function process_submission_queue :: "world \<Rightarrow> (int \<times> world) option" where
  "process_submission_queue w =
     (if shutdown w = 0 then
        (case poll_body w of
           None \<Rightarrow> None
         | Some (GotoExit rc, w') \<Rightarrow> Some (rc, w')
         | Some (Next, w') \<Rightarrow> process_submission_queue w')
      else Some (0, w))"
  by pat_completeness auto
termination
  by (relation "measure (\<lambda>w. length (script w))")
    (auto dest: poll_body_shorter)

declare process_submission_queue.simps [simp del]

subsection \<open>The main function\<close>

text \<open>
  The worker threads run \<^verbatim>\<open>parsethread\<close>, which is not among the sources. They
  take jobs from the queue while \<^verbatim>\<open>main\<close> runs; what that does to the queue is in
  the answers to \<^verbatim>\<open>mq_send\<close>.
\<close>

definition max_threads :: nat where
  "max_threads = 5"

text \<open>A local variable that is declared without a value holds none until it is assigned.\<close>

datatype 'a var = Indeterminate | Value 'a

text \<open>
  Modelled from the spec: \<^verbatim>\<open>threadinfo.h\<close>, which declares \<^verbatim>\<open>threadData_t\<close>,
  is not among the sources. The fields are those \<^verbatim>\<open>main\<close> assigns; the two that
  hold the addresses of the shutdown flag and of the mutex are the same for every worker
  and are left out.
\<close>

record threadData =
  td_dbc :: ptr
  td_id :: nat
  td_msgq :: int
  td_xslt :: ptr
  td_destdir :: "string option"

text \<open>The local variables of \<^verbatim>\<open>main\<close> that the code at \<^verbatim>\<open>exit\<close> reads.\<close>

record locals =
  l_config :: "(string \<times> string) list"
  l_xslt :: ptr
  l_dbc :: ptr
  l_threads :: "ptr list option"
  l_thread_attrs :: "ptr list option"
  l_thrdata :: "threadData option list var"
  l_msgq :: "int var"

datatype outcome = Return int | AssertFailed | UndefinedBehaviour

definition lib :: "libcall \<Rightarrow> world \<Rightarrow> world" where
  "lib c w = emit (Lib c) w"

definition read_config :: "string \<Rightarrow> string \<Rightarrow> world \<Rightarrow> ((string \<times> string) list \<times> world) option" where
  "read_config path section w =
     (case await w of
        Some (RConfig cfg, w') \<Rightarrow> Some (cfg, emit (ReadConfig path section) w')
      | _ \<Rightarrow> None)"

text \<open>
  Modelled from the spec: \<^verbatim>\<open>eurephia_values.h\<close> is not among the sources. The
  configuration is a list of keys with their values, and \<^verbatim>\<open>eGet_value\<close> gives the
  value of a key, or \<^verbatim>\<open>NULL\<close> when the section does not supply it.
\<close>

definition eGet_value :: "(string \<times> string) list \<Rightarrow> string \<Rightarrow> string option" where
  "eGet_value cfg key = map_of cfg key"

text \<open>
  \<^verbatim>\<open>snprintf(buf, n, "%s/%s", a, b)\<close>: at most \<open>n - 1\<close> characters are
  written, and a NUL after them. The C library prints a null pointer as \<^verbatim>\<open>(null)\<close>.
\<close>

definition percent_s :: "string option \<Rightarrow> string" where
  "percent_s a = (case a of None \<Rightarrow> ''(null)'' | Some s \<Rightarrow> s)"

definition snprintf_path :: "nat \<Rightarrow> string option \<Rightarrow> string \<Rightarrow> string" where
  "snprintf_path n a b = take (n - 1) (percent_s a @ ''/'' @ b)"

definition xsltParseStylesheetFile :: "string \<Rightarrow> world \<Rightarrow> (ptr \<times> world) option" where
  "xsltParseStylesheetFile path w =
     (case await w of
        Some (RPtr p, w') \<Rightarrow> Some (p, emit (XsltParseStylesheetFile path p) w')
      | _ \<Rightarrow> None)"

definition mq_open :: "string \<Rightarrow> int \<Rightarrow> world \<Rightarrow> (int \<times> world) option" where
  "mq_open name maxmsg w =
     (case await w of
        Some (RInt d, w') \<Rightarrow> Some (d, emit (MqOpen name maxmsg d) w')
      | Some (RErr e, w') \<Rightarrow> Some (- 1, emit (MqOpen name maxmsg (- 1)) (w'\<lparr>errno := e\<rparr>))
      | _ \<Rightarrow> None)"

definition db_connect :: "world \<Rightarrow> (ptr \<times> world) option" where
  "db_connect w =
     (case await w of
        Some (RPtr p, w') \<Rightarrow> Some (p, emit (DbConnect p) w')
      | _ \<Rightarrow> None)"

definition db_disconnect :: "ptr \<Rightarrow> world \<Rightarrow> world" where
  "db_disconnect p w = emit (DbDisconnect p) w"

definition calloc :: "nat \<Rightarrow> world \<Rightarrow> (ptr \<times> world) option" where
  "calloc n w =
     (case await w of
        Some (RPtr p, w') \<Rightarrow> Some (p, emit (Calloc n) w')
      | _ \<Rightarrow> None)"

definition malloc_nullsafe :: "slotobj \<Rightarrow> nat \<Rightarrow> world \<Rightarrow> (ptr \<times> world) option" where
  "malloc_nullsafe obj i w =
     (case await w of
        Some (RPtr p, w') \<Rightarrow> Some (p, emit (Malloc obj i p) w')
      | _ \<Rightarrow> None)"

definition pthread_create :: "nat \<Rightarrow> world \<Rightarrow> (int \<times> world) option" where
  "pthread_create i w =
     (case await w of
        Some (RInt r, w') \<Rightarrow> Some (r, emit (PthreadCreate i r) w')
      | _ \<Rightarrow> None)"

definition pthread_join :: "nat \<Rightarrow> world \<Rightarrow> (int \<times> world) option" where
  "pthread_join i w =
     (case await w of
        Some (RInt r, w') \<Rightarrow> Some (r, emit (PthreadJoin i r) w')
      | _ \<Rightarrow> None)"

definition mq_close :: "int \<Rightarrow> world \<Rightarrow> (int \<times> world) option" where
  "mq_close q w =
     (case await w of
        Some (RInt r, w') \<Rightarrow> Some (r, emit (MqClose q r) w')
      | Some (RErr e, w') \<Rightarrow> Some (- 1, emit (MqClose q (- 1)) (w'\<lparr>errno := e\<rparr>))
      | _ \<Rightarrow> None)"

definition mq_unlink :: "string \<Rightarrow> world \<Rightarrow> (int \<times> world) option" where
  "mq_unlink name w =
     (case await w of
        Some (RInt r, w') \<Rightarrow> Some (r, emit (MqUnlink name r) w')
      | Some (RErr e, w') \<Rightarrow> Some (- 1, emit (MqUnlink name (- 1)) (w'\<lparr>errno := e\<rparr>))
      | _ \<Rightarrow> None)"

text \<open>
  Parsing the template (lines 196 to 198): the stylesheet, and the path that was built
  for it in \<^verbatim>\<open>xsltfile\<close>, an array of 2050 characters.
\<close>

definition parse_template :: "(string \<times> string) list \<Rightarrow> world \<Rightarrow> (ptr \<times> string \<times> world) option" where
  "parse_template config w = do {
     let xsltfile = snprintf_path 512 (eGet_value config ''xsltpath'') XMLPARSER_XSL;
     (xslt, w') \<leftarrow> xsltParseStylesheetFile xsltfile w;
     Some (xslt, xsltfile, w')
   }"

text \<open>Opening the queue (lines 205 to 210): the descriptor \<^verbatim>\<open>mq_open\<close> returns.\<close>

definition open_mq :: "world \<Rightarrow> (int \<times> world) option" where
  "open_mq w = do {
     (msg_max, w1) \<leftarrow> get_mqueue_msg_max w;
     mq_open ''/rteval_parsequeue'' (uint msg_max) w1
   }"

text \<open>
  One round of the loop that prepares the threads (lines 231 to 272). The arrays hold
  \<open>max_threads + 1\<close> pointers and the index stays below \<open>max_threads\<close>.
\<close>

definition prepare_slot :: "nat \<Rightarrow> string option \<Rightarrow> locals \<Rightarrow> world \<Rightarrow> (flow \<times> locals \<times> world) option" where
  "prepare_slot i reportdir l w = do {
     (td, w1) \<leftarrow> malloc_nullsafe Thrdata i w;
     if td = NULL then
       Some (GotoExit 2, l,
         fprintf ''** ERROR **  Could not allocate memory for thread data\<newline>'' [] w1)
     else do {
       (c, w2) \<leftarrow> db_connect w1;
       let d = \<lparr>td_dbc = c, td_id = 0, td_msgq = 0, td_xslt = NULL, td_destdir = None\<rparr>;
       if c = NULL then
         Some (GotoExit 2,
           l\<lparr>l_thrdata := map_var (\<lambda>xs. xs[i := Some d]) (l_thrdata l)\<rparr>,
           (fprintf ''** ERROR **  Could not connect to the database for thread %i\<newline>''
              [ArgI (int i)] w2)\<lparr>shutdown := 1\<rparr>)
       else do {
         let d = d\<lparr>td_id := i, td_msgq := (case l_msgq l of Value q \<Rightarrow> q | Indeterminate \<Rightarrow> 0),
                   td_xslt := l_xslt l, td_destdir := reportdir\<rparr>;
         let l1 = l\<lparr>l_thrdata := map_var (\<lambda>xs. xs[i := Some d]) (l_thrdata l)\<rparr>;
         (a, w3) \<leftarrow> malloc_nullsafe ThreadAttr i w2;
         let l2 = l1\<lparr>l_thread_attrs := map_option (\<lambda>xs. xs[i := a]) (l_thread_attrs l1)\<rparr>;
         if a = NULL then
           Some (GotoExit 2, l2,
             fprintf ''** ERROR **  Could not allocate memory for thread attributes\<newline>'' [] w3)
         else do {
           (t, w4) \<leftarrow> malloc_nullsafe Thread i
             (emit (PthreadAttrSetJoinable i) (emit (PthreadAttrInit i) w3));
           let l3 = l2\<lparr>l_threads := map_option (\<lambda>xs. xs[i := t]) (l_threads l2)\<rparr>;
           if t = NULL then
             Some (GotoExit 2, l3,
               fprintf ''** ERROR **  Could not allocate memory for pthread_t\<newline>'' [] w4)
           else Some (Next, l3, w4)
         }
       }
     }
   }"

function prepare_threads :: "nat \<Rightarrow> string option \<Rightarrow> locals \<Rightarrow> world \<Rightarrow> (flow \<times> locals \<times> world) option" where
  "prepare_threads i reportdir l w =
     (if i < max_threads then
        (case prepare_slot i reportdir l w of
           None \<Rightarrow> None
         | Some (GotoExit rc, l', w') \<Rightarrow> Some (GotoExit rc, l', w')
         | Some (Next, l', w') \<Rightarrow> prepare_threads (Suc i) reportdir l' w')
      else Some (Next, l, w))"
  by pat_completeness auto
termination
  by (relation "measure (\<lambda>(i, reportdir, l, w). max_threads - i)") auto

declare prepare_threads.simps [simp del]

text \<open>The loop that starts the threads (lines 279 to 287).\<close>

function start_threads :: "nat \<Rightarrow> world \<Rightarrow> (flow \<times> world) option" where
  "start_threads i w =
     (if i < max_threads then
        (case pthread_create i w of
           None \<Rightarrow> None
         | Some (thr_rc, w') \<Rightarrow>
             if thr_rc < 0 then
               Some (GotoExit 3,
                 fprintf ''** ERROR **  Failed to start thread %i: %s'' [ArgI (int i), ArgErr thr_rc] w')
             else start_threads (Suc i) w')
      else Some (Next, w))"
  by pat_completeness auto
termination
  by (relation "measure (\<lambda>(i, w). max_threads - i)") auto

declare start_threads.simps [simp del]

text \<open>
  One round of the loop at \<^verbatim>\<open>exit\<close> (lines 300 to 320): \<open>False\<close> when it reads a
  variable that holds no value.
\<close>

definition cleanup_slot :: "nat \<Rightarrow> locals \<Rightarrow> world \<Rightarrow> (bool \<times> world) option" where
  "cleanup_slot i l w = do {
     w1 \<leftarrow> (case l_threads l of
              None \<Rightarrow> Some w
            | Some ts \<Rightarrow>
                if ts ! i \<noteq> NULL then do {
                  (j_rc, wa) \<leftarrow> pthread_join i w;
                  let wb = (if j_rc \<noteq> 0
                            then fprintf ''** ERROR **  Failed to join thread %i: %s\<newline>''
                                   [ArgI (int i), ArgErr j_rc] wa
                            else wa);
                  Some (emit (FreeSlot ThreadAttr i) (emit (FreeSlot Thread i)
                    (emit (PthreadAttrDestroy i) wb)))
                }
                else Some w);
     case l_thrdata l of
       Indeterminate \<Rightarrow> Some (False, w1)
     | Value ds \<Rightarrow>
         (case ds ! i of
            None \<Rightarrow> Some (True, w1)
          | Some d \<Rightarrow> Some (True, emit (FreeSlot Thrdata i) (db_disconnect (td_dbc d) w1)))
   }"

function cleanup_threads :: "nat \<Rightarrow> locals \<Rightarrow> world \<Rightarrow> (bool \<times> world) option" where
  "cleanup_threads i l w =
     (if i < max_threads then
        (case cleanup_slot i l w of
           None \<Rightarrow> None
         | Some (False, w') \<Rightarrow> Some (False, w')
         | Some (True, w') \<Rightarrow> cleanup_threads (Suc i) l w')
      else Some (True, w))"
  by pat_completeness auto
termination
  by (relation "measure (\<lambda>(i, l, w). max_threads - i)") auto

declare cleanup_threads.simps [simp del]

text \<open>The code at the label \<^verbatim>\<open>exit\<close> (lines 298 to 346), entered with a result code.\<close>

definition main_exit :: "int \<Rightarrow> locals \<Rightarrow> world \<Rightarrow> (outcome \<times> world) option" where
  "main_exit rc l w = do {
     (defined, w1) \<leftarrow> cleanup_threads 0 l w;
     if \<not> defined then Some (UndefinedBehaviour, w1)
     else
       (case l_msgq l of
          Indeterminate \<Rightarrow>
            Some (UndefinedBehaviour,
              emit (FreeArray ThreadAttr) (emit (FreeArray Thread) (emit (FreeArray Thrdata) w1)))
        | Value q \<Rightarrow> do {
            (c, w2) \<leftarrow> mq_close q
              ((emit (FreeArray ThreadAttr) (emit (FreeArray Thread) (emit (FreeArray Thrdata) w1)))
                 \<lparr>errno := 0\<rparr>);
            let w3 = (if c < 0
                      then fprintf ''** ERROR **  Failed to close message queue: %s\<newline>''
                             [ArgErr (errno w2)] w2
                      else w2);
            (u, w4) \<leftarrow> mq_unlink ''/rteval_parsequeue'' (w3\<lparr>errno := 0\<rparr>);
            let w5 = (if u < 0
                      then fprintf ''** ERROR **  Failed to remove the message queue: %s\<newline>''
                             [ArgErr (errno w4)] w4
                      else w4);
            Some (Return rc,
              lib XsltCleanupGlobals (lib XmlCleanupParser (lib XsltFreeStylesheet
                (lib EFreeValues (db_disconnect (l_dbc l) w5)))))
          })
   }"

text \<open>From the preparation of the threads to the return of the poller (lines 224 to 296).\<close>

definition main_threads :: "locals \<Rightarrow> world \<Rightarrow> (outcome \<times> world) option" where
  "main_threads l w = do {
     (threads, w1) \<leftarrow> calloc (max_threads + 1) w;
     (thread_attrs, w2) \<leftarrow> calloc (max_threads + 1) w1;
     (thrdata, w3) \<leftarrow> calloc (max_threads + 1) w2;
     if \<not> (threads \<noteq> NULL \<and> thread_attrs \<noteq> NULL \<and> thrdata \<noteq> NULL) then
       Some (AssertFailed, w3)
     else do {
       let l1 = l\<lparr>l_threads := Some (replicate (max_threads + 1) NULL),
                  l_thread_attrs := Some (replicate (max_threads + 1) NULL),
                  l_thrdata := Value (replicate (max_threads + 1) None)\<rparr>;
       (f, l2, w4) \<leftarrow> prepare_threads 0 (eGet_value (l_config l) ''reportdir'') l1 w3;
       case f of
         GotoExit rc \<Rightarrow> main_exit rc l2 w4
       | Next \<Rightarrow> do {
           (g, w5) \<leftarrow> start_threads 0 (signal SIGTERM Sigcatch (signal SIGINT Sigcatch w4));
           case g of
             GotoExit rc \<Rightarrow> main_exit rc l2 w5
           | Next \<Rightarrow> do {
               (rc, w6) \<leftarrow> process_submission_queue
                 (fprintf ''** Starting submission queue checker\<newline>'' [] w5);
               main_exit rc l2 (fprintf ''** Submission queue checker shut down\<newline>'' [] w6)
             }
         }
     }
   }"

definition main :: "world \<Rightarrow> (outcome \<times> world) option" where
  "main w = do {
     (config, w1) \<leftarrow> read_config ''/etc/rteval.conf'' ''xmlrpc_parser''
       (lib XmlInitParser (lib XsltInit w));
     (xslt, xsltfile, w2) \<leftarrow> parse_template config w1;
     let l = \<lparr>l_config = config, l_xslt = xslt, l_dbc = NULL, l_threads = None,
              l_thread_attrs = None, l_thrdata = Indeterminate, l_msgq = Indeterminate\<rparr>;
     if xslt = NULL then
       main_exit 2 l
         (fprintf ''** ERROR **  Could not parse XSLT template: %s\<newline>'' [ArgS xsltfile] w2)
     else do {
       (msgq, w3) \<leftarrow> open_mq w2;
       let l1 = l\<lparr>l_msgq := Value msgq\<rparr>;
       if msgq < 0 then
         main_exit 2 l1
           (fprintf ''** ERROR **  Could not open message queue: %s\<newline>'' [ArgErr (errno w3)] w3)
       else do {
         (dbc, w4) \<leftarrow> db_connect w3;
         let l2 = l1\<lparr>l_dbc := dbc\<rparr>;
         if dbc = NULL then main_exit 2 l2 w4
         else main_threads l2 w4
       }
     }
   }"

text \<open>The world at the start of the process: the flag is 0 and no handler is installed.\<close>

definition initial_world :: "response list \<Rightarrow> world" where
  "initial_world rs =
     \<lparr>shutdown = 0, errno = 0, handlers = (\<lambda>s. SIG_DFL), script = rs, trace = []\<rparr>"

section \<open>Traces\<close>

text \<open>The events that the signal catcher writes, and the events of the program proper.\<close>

fun handler_event :: "event \<Rightarrow> bool" where
  "handler_event (Signal s h) = True"
| "handler_event (Fprintf fmt args) =
     (fmt = ''** SIGNAL ** Starting shutting down\<newline>''
      \<or> fmt = ''** SIGNAL ** Shutdown in progress ... please be patient ...\<newline>'')"
| "handler_event e = False"

definition own_events :: "event list \<Rightarrow> event list" where
  "own_events es = filter (\<lambda>e. \<not> handler_event e) es"

text \<open>What one round of the poller's loop writes, by the way the round goes.\<close>

definition full_round :: "parseJob \<Rightarrow> event list" where
  "full_round j =
     [MqSend j (- 1) EAGAIN,
      Fprintf ''** WARNING **  Message queue filled up.  Will not add new messages to queue for the next 60 seconds\<newline>'' [],
      Sleep 60 EAGAIN]"

definition claimed :: "parseJob \<Rightarrow> nat \<Rightarrow> event list" where
  "claimed j k =
     [DbGetJob (Some j),
      Fprintf ''** New job: submid %i, %s\<newline>'' [ArgI (submid j), ArgS (filename j)]]
     @ concat (replicate k (full_round j))"

definition dispatched :: "parseJob \<Rightarrow> nat \<Rightarrow> int \<Rightarrow> event list" where
  "dispatched j k res = claimed j k @ [MqSend j res 0, FreeJob j]"

definition abandoned :: "parseJob \<Rightarrow> nat \<Rightarrow> int \<Rightarrow> event list" where
  "abandoned j k e =
     claimed j k @
     [MqSend j (- 1) EAGAIN,
      Fprintf ''** WARNING **  Message queue filled up.  Will not add new messages to queue for the next 60 seconds\<newline>'' [],
      Sleep 60 e,
      FreeJob j]"

definition send_failed :: "parseJob \<Rightarrow> nat \<Rightarrow> int \<Rightarrow> int \<Rightarrow> event list" where
  "send_failed j k res e =
     claimed j k @
     [MqSend j res e, Fprintf ''** ERROR **  Could not send parse job to the queue\<newline>'' []]"

definition idle_round :: "parseJob \<Rightarrow> int \<Rightarrow> event list" where
  "idle_round j n = [DbGetJob (Some j), FreeJob j, DbWaitNotification ''rteval_submq'' n]"

definition wait_failed :: "parseJob \<Rightarrow> int \<Rightarrow> event list" where
  "wait_failed j n =
     idle_round j n @ [Fprintf ''** ERROR **  Failed to wait for DB notification\<newline>'' []]"

definition claim_failed :: "event list" where
  "claim_failed =
     [DbGetJob None,
      Fprintf ''** ERROR **  Failed to get submission queue job - shutting down\<newline>'' []]"

text \<open>A round that goes on to the next test of the flag, and a round that jumps to the exit.\<close>

definition passing_round :: "event list \<Rightarrow> bool" where
  "passing_round it \<longleftrightarrow>
     (\<exists>j k res. status j \<noteq> jbNONE \<and> 0 \<le> res \<and> it = dispatched j k res)
     \<or> (\<exists>j k e. status j \<noteq> jbNONE \<and> e \<noteq> EAGAIN \<and> it = abandoned j k e)
     \<or> (\<exists>j n. status j = jbNONE \<and> 1 \<le> n \<and> it = idle_round j n)"

definition failing_round :: "int \<Rightarrow> event list \<Rightarrow> bool" where
  "failing_round rc it \<longleftrightarrow>
     (rc = 1 \<and> it = claim_failed)
     \<or> (rc = 1 \<and> (\<exists>j n. status j = jbNONE \<and> n < 1 \<and> it = wait_failed j n))
     \<or> (rc = 2 \<and> (\<exists>j k res e. status j \<noteq> jbNONE \<and> res < 0 \<and> e \<noteq> EAGAIN
           \<and> it = send_failed j k res e))"

text \<open>A call of the poller that fails: a claim that gives no job, a wait that returns less
  than 1, a send that fails for another reason than a full queue.\<close>

fun failure_event :: "event \<Rightarrow> bool" where
  "failure_event (DbGetJob j) = (j = None)"
| "failure_event (DbWaitNotification l n) = (n < 1)"
| "failure_event (MqSend j res e) = (res < 0 \<and> e \<noteq> EAGAIN)"
| "failure_event e = False"

text \<open>The rounds of a run of the poller that returns \<open>rc\<close>.\<close>

definition poller_run :: "int \<Rightarrow> event list list \<Rightarrow> bool" where
  "poller_run rc its \<longleftrightarrow>
     (if rc = 0 then list_all passing_round its
      else its \<noteq> [] \<and> list_all passing_round (butlast its) \<and> failing_round rc (last its))"

text \<open>
  The world in which \<^verbatim>\<open>main\<close> calls the poller: the handlers are installed. Then a
  job with work in it, a job without, and the answers of a start in which every call
  succeeds, for the evaluations below.
\<close>

definition polling_world :: "response list \<Rightarrow> world" where
  "polling_world rs = (initial_world rs)\<lparr>handlers := (\<lambda>s. Sigcatch)\<rparr>"

definition sample_job :: parseJob where
  "sample_job = \<lparr>status = jbAVAIL, submid = 7, filename = ''report.xml''\<rparr>"

definition sample_none :: parseJob where
  "sample_none = \<lparr>status = jbNONE, submid = 0, filename = []\<rparr>"

definition sample_startup :: "response list" where
  "sample_startup =
     [RConfig [(''xsltpath'', ''/usr/share/rteval''), (''reportdir'', ''/var/lib/rteval/reports'')],
      RPtr 1, RPtr 2, RData ''10\<newline>'', RInt 3, RPtr 100,
      RPtr 10, RPtr 11, RPtr 12,
      RPtr 20, RPtr 101, RPtr 30, RPtr 40,
      RPtr 21, RPtr 102, RPtr 31, RPtr 41,
      RPtr 22, RPtr 103, RPtr 32, RPtr 42,
      RPtr 23, RPtr 104, RPtr 33, RPtr 43,
      RPtr 24, RPtr 105, RPtr 34, RPtr 44]"

text \<open>
  The steps of \<^verbatim>\<open>main\<close> that build the worker pool, as the trace shows them, each
  with its success: a connection or an allocation succeeds when the call does not return
  \<^verbatim>\<open>NULL\<close>, and \<^verbatim>\<open>pthread_create\<close> has started a thread when it returns 0.
\<close>

datatype pool_step = Connect | AllocContext nat | StartThread nat | StartChecker

fun step_of :: "event \<Rightarrow> (pool_step \<times> bool) list" where
  "step_of (DbConnect p) = [(Connect, p \<noteq> NULL)]"
| "step_of (Malloc obj i p) = (if obj = Thrdata then [(AllocContext i, p \<noteq> NULL)] else [])"
| "step_of (PthreadCreate i r) = [(StartThread i, r = 0)]"
| "step_of (Fprintf fmt args) =
     (if fmt = ''** Starting submission queue checker\<newline>'' then [(StartChecker, True)] else [])"
| "step_of e = []"

definition pool_steps :: "event list \<Rightarrow> (pool_step \<times> bool) list" where
  "pool_steps tr = concat (map step_of tr)"

definition succeeded :: "pool_step list \<Rightarrow> (pool_step \<times> bool) list" where
  "succeeded xs = map (\<lambda>s. (s, True)) xs"

text \<open>
  The pool in the order \<^verbatim>\<open>main\<close> builds it: the contexts of the workers with their
  connections, the threads, and the start of the poller.
\<close>

definition pool_contexts :: "pool_step list" where
  "pool_contexts = concat (map (\<lambda>k. [AllocContext k, Connect]) [0..<max_threads])"

definition pool_threads :: "pool_step list" where
  "pool_threads = map StartThread [0..<max_threads]"

definition pool_built :: "pool_step list" where
  "pool_built = pool_contexts @ pool_threads @ [StartChecker]"

section \<open>Properties\<close>

subsection \<open>The signal catcher\<close>

lemma shutdown_sigcatch:
  "shutdown (sigcatch s w) = (if shutdown w = 0 then 1 else shutdown w)"
  by (simp add: sigcatch_def signal_def fprintf_def emit_def)

lemma handlers_sigcatch: "handlers (sigcatch s w) = (\<lambda>x. Sigcatch)"
proof
  fix x
  show "handlers (sigcatch s w) x = Sigcatch"
    by (cases x) (simp_all add: sigcatch_def signal_def fprintf_def emit_def)
qed

lemma trace_sigcatch:
  "trace (sigcatch s w) = trace w @
     [Fprintf (if shutdown w = 0 then ''** SIGNAL ** Starting shutting down\<newline>''
               else ''** SIGNAL ** Shutdown in progress ... please be patient ...\<newline>'') [],
      Signal SIGINT Sigcatch, Signal SIGTERM Sigcatch]"
  by (simp add: sigcatch_def signal_def fprintf_def emit_def)

lemma fold_sigcatch_later:
  "shutdown v \<noteq> 0 \<Longrightarrow>
     shutdown (fold sigcatch sigs v) = shutdown v \<and>
     trace (fold sigcatch sigs v) = trace v @ concat (replicate (length sigs)
       [Fprintf ''** SIGNAL ** Shutdown in progress ... please be patient ...\<newline>'' [],
        Signal SIGINT Sigcatch, Signal SIGTERM Sigcatch])"
proof (induction sigs arbitrary: v)
  case Nil
  then show ?case by simp
next
  case (Cons s sigs)
  from Cons.prems have nz: "shutdown (sigcatch s v) \<noteq> 0"
    by (simp add: shutdown_sigcatch)
  from Cons.IH [OF nz] Cons.prems show ?case
    by (simp add: shutdown_sigcatch trace_sigcatch)
qed

text \<open>
  C3. The signal catcher moves the flag from 0 to 1 once. Called with the flag at 0 it
  sets the flag and logs the line that the shutdown starts; called with the flag set it
  leaves the flag as it is and logs the line that the shutdown is in progress; every call
  installs itself again for both signals. Over any sequence of signals that starts with the
  flag at 0, the flag ends at 1 and the log holds the first line once, then the second line
  once for every later signal.
\<close>

theorem sigcatch_shutdown_once:
  assumes "shutdown w = 0" and "shutdown v \<noteq> 0"
  shows "shutdown (sigcatch s w) = 1
    \<and> trace (sigcatch s w) = trace w @
        [Fprintf ''** SIGNAL ** Starting shutting down\<newline>'' [],
         Signal SIGINT Sigcatch, Signal SIGTERM Sigcatch]
    \<and> shutdown (sigcatch s v) = shutdown v
    \<and> trace (sigcatch s v) = trace v @
        [Fprintf ''** SIGNAL ** Shutdown in progress ... please be patient ...\<newline>'' [],
         Signal SIGINT Sigcatch, Signal SIGTERM Sigcatch]
    \<and> handlers (sigcatch s w) SIGINT = Sigcatch \<and> handlers (sigcatch s w) SIGTERM = Sigcatch
    \<and> handlers (sigcatch s v) SIGINT = Sigcatch \<and> handlers (sigcatch s v) SIGTERM = Sigcatch
    \<and> shutdown (fold sigcatch (s # sigs) w) = 1
    \<and> trace (fold sigcatch (s # sigs) w) = trace w @
        [Fprintf ''** SIGNAL ** Starting shutting down\<newline>'' [],
         Signal SIGINT Sigcatch, Signal SIGTERM Sigcatch] @
        concat (replicate (length sigs)
          [Fprintf ''** SIGNAL ** Shutdown in progress ... please be patient ...\<newline>'' [],
           Signal SIGINT Sigcatch, Signal SIGTERM Sigcatch])"
proof -
  from assms(1) have one: "shutdown (sigcatch s w) = 1"
    by (simp add: shutdown_sigcatch)
  then have nz: "shutdown (sigcatch s w) \<noteq> 0"
    by simp
  from fold_sigcatch_later [OF nz, of sigs] one assms show ?thesis
    by (simp add: shutdown_sigcatch trace_sigcatch handlers_sigcatch)
qed

theorem sigcatch_shutdown_once_witness:
  "shutdown (initial_world []) = 0
   \<and> shutdown (sigcatch SIGINT (initial_world [])) \<noteq> 0
   \<and> shutdown (fold sigcatch [SIGINT, SIGTERM, SIGINT] (initial_world [])) = 1
   \<and> trace (fold sigcatch [SIGINT, SIGTERM, SIGINT] (initial_world [])) =
       [Fprintf ''** SIGNAL ** Starting shutting down\<newline>'' [],
        Signal SIGINT Sigcatch, Signal SIGTERM Sigcatch,
        Fprintf ''** SIGNAL ** Shutdown in progress ... please be patient ...\<newline>'' [],
        Signal SIGINT Sigcatch, Signal SIGTERM Sigcatch,
        Fprintf ''** SIGNAL ** Shutdown in progress ... please be patient ...\<newline>'' [],
        Signal SIGINT Sigcatch, Signal SIGTERM Sigcatch]
   \<and> shutdown (sigcatch SIGTERM (sigcatch SIGINT (initial_world []))) = 1"
proof -
  have a: "shutdown (initial_world []) = 0"
    by (simp add: initial_world_def)
  have b: "shutdown (sigcatch SIGINT (initial_world [])) \<noteq> 0"
    by (simp add: initial_world_def shutdown_sigcatch)
  from sigcatch_shutdown_once [OF a b, of SIGINT "[SIGTERM, SIGINT]"]
  have c: "shutdown (fold sigcatch [SIGINT, SIGTERM, SIGINT] (initial_world [])) = 1
    \<and> trace (fold sigcatch [SIGINT, SIGTERM, SIGINT] (initial_world [])) =
       trace (initial_world []) @
        [Fprintf ''** SIGNAL ** Starting shutting down\<newline>'' [],
         Signal SIGINT Sigcatch, Signal SIGTERM Sigcatch] @
        concat (replicate (length [SIGTERM, SIGINT])
          [Fprintf ''** SIGNAL ** Shutdown in progress ... please be patient ...\<newline>'' [],
           Signal SIGINT Sigcatch, Signal SIGTERM Sigcatch])"
    by blast
  from sigcatch_shutdown_once [OF a b, of SIGTERM "[]"]
  have d: "shutdown (sigcatch SIGTERM (sigcatch SIGINT (initial_world []))) =
      shutdown (sigcatch SIGINT (initial_world []))"
    by blast
  have e: "trace (initial_world []) = []"
    by (simp add: initial_world_def)
  from a b c d e show ?thesis
    by (simp add: shutdown_sigcatch numeral_2_eq_2)
qed

subsection \<open>The message queue limit\<close>

lemma await_Cons:
  assumes "script w = r # rs" and "\<And>s. r \<noteq> RSignal s"
  shows "await w = Some (r, w\<lparr>script := rs\<rparr>)"
  using assms by (cases r) (auto simp: await_def)

lemma c_str_buffer:
  assumes "length xs < n"
  shows "c_str (xs @ replicate (n - length xs) (CHR 0x00)) = c_str xs"
proof -
  from assms obtain k where k: "n - length xs = Suc k"
    by (cases "n - length xs") auto
  show ?thesis
  proof (cases "\<forall>c\<in>set xs. c \<noteq> CHR 0x00")
    case True
    then show ?thesis
      unfolding c_str_def k by (simp add: takeWhile_append2 takeWhile_eq_all_conv [THEN iffD2])
  next
    case False
    then obtain c where "c \<in> set xs" "\<not> c \<noteq> CHR 0x00"
      by blast
    then show ?thesis
      unfolding c_str_def by (rule takeWhile_append1)
  qed
qed

text \<open>What the function returns when the file opens and the read gives bytes.\<close>

lemma get_mqueue_msg_max_read:
  assumes "script w = RPtr fp # RData bytes # rs" and "fp \<noteq> NULL" and "bytes \<noteq> []"
  shows "map_option fst (get_mqueue_msg_max w) =
     Some (if (word_of_int (atoi (c_str (take 128 bytes))) :: 32 word) = 0 then DEFAULT_MSG_MAX
           else word_of_int (atoi (c_str (take 128 bytes))))"
proof -
  define xs where "xs = take 128 bytes"
  define w1 where "w1 = (emit (Fopen ''/proc/sys/fs/mqueue/msg_max'' ''r'') w)\<lparr>script := RData bytes # rs\<rparr>"
  have open_ok: "fopen ''/proc/sys/fs/mqueue/msg_max'' ''r'' w = Some (fp, w1)"
    using assms(1) by (simp add: fopen_def await_Cons script_emit w1_def)
  have len: "length xs < 130"
    by (simp add: xs_def)
  have pos: "length xs \<noteq> 0"
    using assms(3) by (cases bytes) (simp_all add: xs_def)
  have read_ok: "fread (replicate 130 (CHR 0x00)) 128 fp w1 =
      Some (length xs, xs @ replicate (130 - length xs) (CHR 0x00),
        (emit (Fread 128) w1)\<lparr>script := rs\<rparr>)"
    unfolding xs_def by (simp add: fread_def await_Cons script_emit w1_def)
  have "get_mqueue_msg_max w =
      fread (replicate 130 (CHR 0x00)) 128 fp w1 \<bind>
       (\<lambda>(n, buf, w2).
         let (msg_max, w3) =
           (if n < 1 then
              (DEFAULT_MSG_MAX,
               fprintf ''** ERROR **  %s\<newline>'' [ArgErr (errno w2)]
                 (fprintf ''** ERROR **  Could not read /proc/sys/fs/mqueue/msg_max, defaulting to %i\<newline>''
                    [ArgI (uint DEFAULT_MSG_MAX)] w2))
            else
              (let msg_max = (word_of_int (atoi_nullsafe (Some (c_str buf))) :: 32 word) in
               if msg_max < 1 then
                 (DEFAULT_MSG_MAX,
                  fprintf ''** ERROR **  Failed to parse /proc/sys/fs/mqueue/msg_max,defaulting to %i\<newline>''
                    [ArgI (uint DEFAULT_MSG_MAX)] w2)
               else (msg_max, w2)))
         in Some (msg_max, emit (Fclose fp) w3))"
    unfolding get_mqueue_msg_max_def open_ok using assms(2) by (simp only: Option.bind.simps split if_False)
  also have "map_option fst \<dots> =
      Some (if (word_of_int (atoi (c_str xs)) :: 32 word) = 0 then DEFAULT_MSG_MAX
            else word_of_int (atoi (c_str xs)))"
    unfolding read_ok using pos
    by (simp add: c_str_buffer [OF len] atoi_nullsafe_def Let_def)
  finally show ?thesis
    unfolding xs_def .
qed

lemma word_ge_1: "(1 \<le> (m :: 32 word)) = (m \<noteq> 0)"
  unfolding not_less [symmetric] by simp

lemma get_mqueue_msg_max_ge_1:
  assumes "get_mqueue_msg_max w = Some (m, w')"
  shows "1 \<le> m"
  using assms
  by (auto simp: get_mqueue_msg_max_def DEFAULT_MSG_MAX_def Let_def word_ge_1
      split: Option.bind_splits if_splits prod.splits)

text \<open>
  C9, as amended. The value that \<^verbatim>\<open>get_mqueue_msg_max\<close> returns is at least 1. When
  the file opens, the read gives bytes and they parse to zero, it is the default, 5. When
  they parse to a negative number \<open>n\<close>, it is not the default: the number goes into an
  \<^verbatim>\<open>unsigned int\<close>, where it is \<open>n + 2 ^ 32\<close>, and the test \<^verbatim>\<open>msg_max < 1\<close> lets
  it through.
\<close>

theorem get_mqueue_msg_max_positive:
  assumes "get_mqueue_msg_max w = Some (m, w')"
  shows "1 \<le> m
    \<and> (\<forall>fp bytes rs. script w = RPtr fp # RData bytes # rs \<and> fp \<noteq> NULL \<and> bytes \<noteq> []
          \<and> atoi (c_str (take 128 bytes)) = 0 \<longrightarrow> m = DEFAULT_MSG_MAX)
    \<and> (\<forall>fp bytes rs. script w = RPtr fp # RData bytes # rs \<and> fp \<noteq> NULL \<and> bytes \<noteq> []
          \<and> atoi (c_str (take 128 bytes)) < 0 \<longrightarrow>
          uint m = atoi (c_str (take 128 bytes)) + 2 ^ 32)"
proof (intro conjI allI impI)
  show "1 \<le> m"
    using assms by (rule get_mqueue_msg_max_ge_1)
next
  fix fp bytes rs
  assume h: "script w = RPtr fp # RData bytes # rs \<and> fp \<noteq> NULL \<and> bytes \<noteq> []
    \<and> atoi (c_str (take 128 bytes)) = 0"
  then have "map_option fst (get_mqueue_msg_max w) =
      Some (if (word_of_int (atoi (c_str (take 128 bytes))) :: 32 word) = 0 then DEFAULT_MSG_MAX
            else word_of_int (atoi (c_str (take 128 bytes))))"
    by (intro get_mqueue_msg_max_read) auto
  with h have "map_option fst (get_mqueue_msg_max w) = Some DEFAULT_MSG_MAX"
    by simp
  with assms show "m = DEFAULT_MSG_MAX"
    by simp
next
  fix fp bytes rs
  assume h: "script w = RPtr fp # RData bytes # rs \<and> fp \<noteq> NULL \<and> bytes \<noteq> []
    \<and> atoi (c_str (take 128 bytes)) < 0"
  define n where "n = atoi (c_str (take 128 bytes))"
  have lo: "- (2 ^ 31) \<le> n"
    unfolding n_def atoi_def using sint_ge [where 'a = 32, of "word_of_int (strtol (c_str (take 128 bytes)))"]
    by simp
  from h have neg: "n < 0"
    by (simp add: n_def)
  have u: "uint (word_of_int n :: 32 word) = n + 2 ^ 32"
  proof -
    have "uint (word_of_int n :: 32 word) = n mod 2 ^ 32"
      by (simp add: uint_word_of_int)
    also have "\<dots> = (n + 2 ^ 32) mod 2 ^ 32"
      by simp
    also have "\<dots> = n + 2 ^ 32"
      using lo neg by (intro mod_pos_pos_trivial) simp_all
    finally show ?thesis .
  qed
  have nz: "(word_of_int n :: 32 word) \<noteq> 0"
  proof
    assume "(word_of_int n :: 32 word) = 0"
    then have "uint (word_of_int n :: 32 word) = 0"
      by simp
    with u lo show False
      by simp
  qed
  from h have "map_option fst (get_mqueue_msg_max w) =
      Some (if (word_of_int (atoi (c_str (take 128 bytes))) :: 32 word) = 0 then DEFAULT_MSG_MAX
            else word_of_int (atoi (c_str (take 128 bytes))))"
    by (intro get_mqueue_msg_max_read) auto
  with nz have "map_option fst (get_mqueue_msg_max w) = Some (word_of_int n)"
    by (simp only: n_def if_False)
  with assms have "m = word_of_int n"
    by simp
  with u show "uint m = atoi (c_str (take 128 bytes)) + 2 ^ 32"
    by (simp add: n_def)
qed

theorem get_mqueue_msg_max_positive_witness:
  "map_option fst (get_mqueue_msg_max (initial_world [RPtr 2, RData ''0\<newline>''])) = Some 5
   \<and> atoi (c_str (take 128 ''0\<newline>'')) = 0
   \<and> map_option fst (get_mqueue_msg_max (initial_world [RPtr 2, RData ''-3\<newline>''])) =
       Some 4294967293
   \<and> atoi (c_str (take 128 ''-3\<newline>'')) = - 3
   \<and> (1 :: 32 word) \<le> 4294967293"
proof -
  have run0: "map_option fst (get_mqueue_msg_max (initial_world [RPtr 2, RData ''0\<newline>''])) = Some 5"
    by code_simp
  have run3: "map_option fst (get_mqueue_msg_max (initial_world [RPtr 2, RData ''-3\<newline>''])) =
      Some 4294967293"
    by code_simp
  then obtain w' where r: "get_mqueue_msg_max (initial_world [RPtr 2, RData ''-3\<newline>'']) =
      Some (4294967293, w')"
    by auto
  have a3: "atoi (c_str (take 128 ''-3\<newline>'')) = - 3"
    by code_simp
  have s: "script (initial_world [RPtr 2, RData ''-3\<newline>'']) = [RPtr 2, RData ''-3\<newline>'']"
    by (simp add: initial_world_def)
  from get_mqueue_msg_max_positive [OF r] s a3
  have "(1 :: 32 word) \<le> 4294967293"
    by blast
  moreover have "atoi (c_str (take 128 ''0\<newline>'')) = 0"
    by code_simp
  ultimately show ?thesis
    using run0 run3 a3 by simp
qed

text \<open>
  C9 as stated fails when the file holds a negative number: for the content \<^verbatim>\<open>-1\<close> the
  function returns 4294967295, not the default.
\<close>

theorem get_mqueue_msg_max_negative_counterexample:
  "atoi ''-1\<newline>'' = - 1
   \<and> map_option fst (get_mqueue_msg_max (initial_world [RPtr 2, RData ''-1\<newline>''])) =
       Some 4294967295
   \<and> map_option fst (get_mqueue_msg_max (initial_world [RPtr 2, RData ''-1\<newline>''])) \<noteq>
       Some DEFAULT_MSG_MAX"
  by code_simp


lemma get_mqueue_msg_max_default:
  assumes "script w = RErr e # rs \<or> script w = RPtr NULL # rs
    \<or> script w = RPtr fp # RErr e # rs \<or> script w = RPtr fp # RData [] # rs"
  shows "map_option fst (get_mqueue_msg_max w) = Some DEFAULT_MSG_MAX"
proof (cases "fp = NULL")
  case True
  with assms show ?thesis
    by (auto simp: get_mqueue_msg_max_def fopen_def fread_def await_Cons script_emit)
next
  case False
  with assms show ?thesis
    by (auto simp: get_mqueue_msg_max_def fopen_def fread_def await_Cons script_emit)
qed

lemma mq_open_last:
  assumes "mq_open name cap w = Some (q, w')"
  shows "last (trace w') = MqOpen name cap q"
  using assms
  by (auto simp: mq_open_def emit_def split: option.splits prod.splits response.splits)

lemma atoi_negative:
  assumes "atoi s < 0"
  shows "uint (word_of_int (atoi s) :: 32 word) = atoi s + 2 ^ 32"
    and "(word_of_int (atoi s) :: 32 word) \<noteq> 0"
proof -
  define n where "n = atoi s"
  have lo: "- (2 ^ 31) \<le> n"
    unfolding n_def atoi_def using sint_ge [where 'a = 32, of "word_of_int (strtol s)"]
    by simp
  from assms have neg: "n < 0"
    by (simp add: n_def)
  have "uint (word_of_int n :: 32 word) = n mod 2 ^ 32"
    by (simp add: uint_word_of_int)
  also have "\<dots> = (n + 2 ^ 32) mod 2 ^ 32"
    by simp
  also have "\<dots> = n + 2 ^ 32"
    using lo neg by (intro mod_pos_pos_trivial) simp_all
  finally have u: "uint (word_of_int n :: 32 word) = n + 2 ^ 32" .
  then show "uint (word_of_int (atoi s) :: 32 word) = atoi s + 2 ^ 32"
    by (simp add: n_def)
  show "(word_of_int (atoi s) :: 32 word) \<noteq> 0"
  proof
    assume "(word_of_int (atoi s) :: 32 word) = 0"
    then have "uint (word_of_int n :: 32 word) = 0"
      by (simp add: n_def)
    with u lo show False
      by simp
  qed
qed

text \<open>
  C7, as amended. The queue is opened with the capacity that \<^verbatim>\<open>get_mqueue_msg_max\<close>
  returns: the default, 5, when the limit file does not open (an error, or a null pointer),
  when the read fails or gives no byte, and when \<^verbatim>\<open>atoi\<close> reads zero from the
  bytes; the number that \<^verbatim>\<open>atoi\<close> reads when it is at least 1. When
  \<^verbatim>\<open>atoi\<close> reads a negative number \<open>n\<close> the capacity is \<open>n + 2 ^ 32\<close>, which
  is neither the number read nor the default.
\<close>

theorem open_mq_capacity:
  assumes "open_mq w = Some (q, w')"
  shows "\<exists>cap. last (trace w') = MqOpen ''/rteval_parsequeue'' cap q
    \<and> (script w = RErr e # rs \<longrightarrow> cap = 5)
    \<and> (script w = RPtr NULL # rs \<longrightarrow> cap = 5)
    \<and> (script w = RPtr fp # RErr e # rs \<longrightarrow> cap = 5)
    \<and> (script w = RPtr fp # RData [] # rs \<longrightarrow> cap = 5)
    \<and> (script w = RPtr fp # RData bytes # rs \<and> fp \<noteq> NULL \<and> bytes \<noteq> []
         \<and> atoi (c_str (take 128 bytes)) = 0 \<longrightarrow> cap = 5)
    \<and> (script w = RPtr fp # RData bytes # rs \<and> fp \<noteq> NULL \<and> bytes \<noteq> []
         \<and> 1 \<le> atoi (c_str (take 128 bytes)) \<longrightarrow> cap = atoi (c_str (take 128 bytes)))
    \<and> (script w = RPtr fp # RData bytes # rs \<and> fp \<noteq> NULL \<and> bytes \<noteq> []
         \<and> atoi (c_str (take 128 bytes)) < 0 \<longrightarrow>
         cap = atoi (c_str (take 128 bytes)) + 2 ^ 32)"
proof -
  from assms obtain m w1 where g: "get_mqueue_msg_max w = Some (m, w1)"
    and o: "mq_open ''/rteval_parsequeue'' (uint m) w1 = Some (q, w')"
    by (auto simp: open_mq_def split: Option.bind_splits)
  have five: "uint DEFAULT_MSG_MAX = 5"
    by (simp add: DEFAULT_MSG_MAX_def)
  have dflt: "uint m = 5"
    if "script w = RErr e # rs \<or> script w = RPtr NULL # rs
      \<or> script w = RPtr fp # RErr e # rs \<or> script w = RPtr fp # RData [] # rs"
    using get_mqueue_msg_max_default [OF that] g five by simp
  have rd: "m = (if (word_of_int (atoi (c_str (take 128 bytes))) :: 32 word) = 0
                 then DEFAULT_MSG_MAX else word_of_int (atoi (c_str (take 128 bytes))))"
    if "script w = RPtr fp # RData bytes # rs" "fp \<noteq> NULL" "bytes \<noteq> []"
    using get_mqueue_msg_max_read [OF that] g by simp
  have zero: "uint m = 5"
    if "script w = RPtr fp # RData bytes # rs \<and> fp \<noteq> NULL \<and> bytes \<noteq> []
      \<and> atoi (c_str (take 128 bytes)) = 0"
    using rd that five by simp
  have pos: "uint m = atoi (c_str (take 128 bytes))"
    if h: "script w = RPtr fp # RData bytes # rs \<and> fp \<noteq> NULL \<and> bytes \<noteq> []
      \<and> 1 \<le> atoi (c_str (take 128 bytes))"
  proof -
    define n where "n = atoi (c_str (take 128 bytes))"
    have hi: "n < 2 ^ 31"
      unfolding n_def atoi_def
      using sint_lt [where 'a = 32, of "word_of_int (strtol (c_str (take 128 bytes)))"]
      by simp
    from h have lo: "1 \<le> n"
      by (simp add: n_def)
    have u: "uint (word_of_int n :: 32 word) = n"
      using lo hi by (simp add: uint_word_of_int)
    have nz: "(word_of_int n :: 32 word) \<noteq> 0"
    proof
      assume "(word_of_int n :: 32 word) = 0"
      then have "uint (word_of_int n :: 32 word) = 0"
        by simp
      with u lo show False
        by simp
    qed
    from rd h have "m = (if (word_of_int n :: 32 word) = 0 then DEFAULT_MSG_MAX else word_of_int n)"
      by (simp add: n_def)
    with nz have "m = word_of_int n"
      by simp
    with u show ?thesis
      by (simp add: n_def)
  qed
  have neg: "uint m = atoi (c_str (take 128 bytes)) + 2 ^ 32"
    if h: "script w = RPtr fp # RData bytes # rs \<and> fp \<noteq> NULL \<and> bytes \<noteq> []
      \<and> atoi (c_str (take 128 bytes)) < 0"
  proof -
    from h have n: "atoi (c_str (take 128 bytes)) < 0"
      by simp
    from rd h atoi_negative(2) [OF n]
    have "m = word_of_int (atoi (c_str (take 128 bytes)))"
      by simp
    with atoi_negative(1) [OF n] show ?thesis
      by simp
  qed
  from mq_open_last [OF o] dflt zero pos neg show ?thesis
    by (intro exI [of _ "uint m"]) blast
qed

theorem open_mq_capacity_witness:
  "map_option (\<lambda>(q, w). (q, last (trace w))) (open_mq (initial_world [RPtr 2, RData ''10\<newline>'', RInt 3])) =
     Some (3, MqOpen ''/rteval_parsequeue'' 10 3)
   \<and> atoi (c_str (take 128 ''10\<newline>'')) = 10
   \<and> map_option (\<lambda>(q, w). (q, last (trace w))) (open_mq (initial_world [RErr 2, RInt 3])) =
     Some (3, MqOpen ''/rteval_parsequeue'' 5 3)
   \<and> map_option (\<lambda>(q, w). (q, last (trace w))) (open_mq (initial_world [RPtr 2, RData ''-2\<newline>'', RInt 3])) =
     Some (3, MqOpen ''/rteval_parsequeue'' 4294967294 3)
   \<and> atoi (c_str (take 128 ''-2\<newline>'')) = - 2"
proof -
  have a: "atoi (c_str (take 128 ''10\<newline>'')) = 10"
    by code_simp
  have "map_option fst (open_mq (initial_world [RPtr 2, RData ''10\<newline>'', RInt 3])) = Some 3"
    by code_simp
  then obtain w1 where r1: "open_mq (initial_world [RPtr 2, RData ''10\<newline>'', RInt 3]) = Some (3, w1)"
    by auto
  have s1: "script (initial_world [RPtr 2, RData ''10\<newline>'', RInt 3]) =
      RPtr 2 # RData ''10\<newline>'' # [RInt 3]"
    by (simp add: initial_world_def)
  from open_mq_capacity [OF r1, of 0 "[RInt 3]" 2 "''10\<newline>''"] s1 a
  have l1: "last (trace w1) = MqOpen ''/rteval_parsequeue'' 10 3"
    by (auto simp: NULL_def)
  have "map_option fst (open_mq (initial_world [RErr 2, RInt 3])) = Some 3"
    by code_simp
  then obtain w2 where r2: "open_mq (initial_world [RErr 2, RInt 3]) = Some (3, w2)"
    by auto
  have s2: "script (initial_world [RErr 2, RInt 3]) = RErr 2 # [RInt 3]"
    by (simp add: initial_world_def)
  from open_mq_capacity [OF r2, of 2 "[RInt 3]"] s2
  have l2: "last (trace w2) = MqOpen ''/rteval_parsequeue'' 5 3"
    by auto
  have a3: "atoi (c_str (take 128 ''-2\<newline>'')) = - 2"
    by code_simp
  have "map_option fst (open_mq (initial_world [RPtr 2, RData ''-2\<newline>'', RInt 3])) = Some 3"
    by code_simp
  then obtain w3 where r3: "open_mq (initial_world [RPtr 2, RData ''-2\<newline>'', RInt 3]) = Some (3, w3)"
    by auto
  have s3: "script (initial_world [RPtr 2, RData ''-2\<newline>'', RInt 3]) =
      RPtr 2 # RData ''-2\<newline>'' # [RInt 3]"
    by (simp add: initial_world_def)
  from open_mq_capacity [OF r3, of 0 "[RInt 3]" 2 "''-2\<newline>''"] s3 a3
  have l3: "last (trace w3) = MqOpen ''/rteval_parsequeue'' 4294967294 3"
    by (auto simp: NULL_def)
  from a r1 l1 r2 l2 a3 r3 l3 show ?thesis
    by simp
qed

text \<open>
  C7 as stated fails when the file holds a negative number: for the content \<^verbatim>\<open>-1\<close> the
  queue is opened with the capacity 4294967295, which is neither the number read nor the
  default.
\<close>

theorem open_mq_negative_counterexample:
  "atoi (c_str (take 128 ''-1\<newline>'')) = - 1
   \<and> map_option (\<lambda>(q, w). (q, last (trace w)))
        (open_mq (initial_world [RPtr 2, RData ''-1\<newline>'', RInt 3])) =
       Some (3, MqOpen ''/rteval_parsequeue'' 4294967295 3)"
  by code_simp

subsection \<open>The poller\<close>

lemma trace_emit: "trace (emit e w) = trace w @ [e]"
  by (simp add: emit_def)

lemma trace_fprintf: "trace (fprintf fmt args w) = trace w @ [Fprintf fmt args]"
  by (simp add: fprintf_def emit_def)

lemma errno_emit: "errno (emit e w) = errno w"
  by (simp add: emit_def)

lemma errno_fprintf: "errno (fprintf fmt args w) = errno w"
  by (simp add: fprintf_def emit_def)

lemma shutdown_emit: "shutdown (emit e w) = shutdown w"
  by (simp add: emit_def)

lemma shutdown_fprintf: "shutdown (fprintf fmt args w) = shutdown w"
  by (simp add: fprintf_def emit_def)

lemma errno_sigcatch: "errno (sigcatch s w) = errno w"
  by (simp add: sigcatch_def signal_def fprintf_def emit_def)

lemma own_events_append: "own_events (xs @ ys) = own_events xs @ own_events ys"
  by (simp add: own_events_def)

lemma own_events_Nil: "own_events [] = []"
  by (simp add: own_events_def)

lemma own_events_single: "own_events [e] = (if handler_event e then [] else [e])"
  by (simp add: own_events_def)

lemma filter_sigcatch:
  assumes "\<And>e. handler_event e \<Longrightarrow> \<not> P e"
  shows "filter P (trace (sigcatch s w)) = filter P (trace w)"
proof -
  have "\<not> P (Fprintf ''** SIGNAL ** Starting shutting down\<newline>'' [])"
    and "\<not> P (Fprintf ''** SIGNAL ** Shutdown in progress ... please be patient ...\<newline>'' [])"
    and "\<not> P (Signal SIGINT Sigcatch)" and "\<not> P (Signal SIGTERM Sigcatch)"
    by (rule assms, simp)+
  then show ?thesis
    by (simp add: sigcatch_def signal_def fprintf_def emit_def)
qed

lemma next_response_effect:
  assumes "next_response rs w = Some (r, w')" and "\<And>e. handler_event e \<Longrightarrow> \<not> P e"
  shows "filter P (trace w') = filter P (trace w) \<and> errno w' = errno w"
  using assms(1)
proof (induction rs w rule: next_response.induct)
  case (2 s rs w)
  then show ?case
    by (auto simp: filter_sigcatch [OF assms(2)] errno_sigcatch split: sighandler.splits)
qed auto

lemma await_filter:
  assumes "await w = Some (r, w')" and "\<And>e. handler_event e \<Longrightarrow> \<not> P e"
  shows "filter P (trace w') = filter P (trace w)"
  using next_response_effect [OF assms(1) [unfolded await_def] assms(2)] by simp

lemma await_own: "await w = Some (r, w') \<Longrightarrow> own_events (trace w') = own_events (trace w)"
  unfolding own_events_def by (rule await_filter) simp_all

lemma await_errno: "await w = Some (r, w') \<Longrightarrow> errno w' = errno w"
  using next_response_effect [of "script w" w r w' "\<lambda>e. False"] by (simp add: await_def)

lemmas own_simps = own_events_append own_events_Nil own_events_single trace_emit trace_fprintf
  errno_emit errno_fprintf shutdown_emit shutdown_fprintf

lemma mq_send_effect:
  assumes "mq_send job w = Some (res, w')"
  shows "own_events (trace w') = own_events (trace w) @ [MqSend job res (errno w')]
    \<and> (errno w' = errno w \<or> res = - 1)"
  using assms
  by (auto simp: mq_send_def own_simps split: option.splits prod.splits response.splits
      dest: await_own await_errno)

lemma sleep_effect:
  assumes "sleep n w = Some w'"
  shows "own_events (trace w') = own_events (trace w) @ [Sleep n (errno w')]"
  using assms
  by (auto simp: sleep_def own_simps split: option.splits prod.splits response.splits
      dest: await_own)

lemma db_get_submissionqueue_job_effect:
  assumes "db_get_submissionqueue_job w = Some (j, w')"
  shows "own_events (trace w') = own_events (trace w) @ [DbGetJob j]"
  using assms
  by (auto simp: db_get_submissionqueue_job_def own_simps
      split: option.splits prod.splits response.splits dest: await_own)

lemma db_wait_notification_effect:
  assumes "db_wait_notification l w = Some (n, w')"
  shows "own_events (trace w') = own_events (trace w) @ [DbWaitNotification l n]"
  using assms
  by (auto simp: db_wait_notification_def own_simps
      split: option.splits prod.splits response.splits dest: await_own)

text \<open>
  One round of the sending loop: the queue is full and the loop goes round, the queue is
  full and the sleep comes back with another error number, the job is sent, or the send
  fails.
\<close>

lemma send_round_effect:
  assumes "send_round job w = Some (g, w')"
  shows "(g = None \<and> own_events (trace w') = own_events (trace w) @ full_round job)
    \<or> (\<exists>e. g = Some Next \<and> e \<noteq> EAGAIN
          \<and> own_events (trace w') = own_events (trace w) @
              [MqSend job (- 1) EAGAIN,
               Fprintf ''** WARNING **  Message queue filled up.  Will not add new messages to queue for the next 60 seconds\<newline>'' [],
               Sleep 60 e])
    \<or> (\<exists>res. g = Some Next \<and> 0 \<le> res
          \<and> own_events (trace w') = own_events (trace w) @ [MqSend job res 0])
    \<or> (\<exists>res e. g = Some (GotoExit 2) \<and> res < 0 \<and> e \<noteq> EAGAIN \<and> shutdown w' = 1
          \<and> own_events (trace w') = own_events (trace w) @
              [MqSend job res e, Fprintf ''** ERROR **  Could not send parse job to the queue\<newline>'' []])"
proof -
  from assms obtain res w1 where send: "mq_send job (w\<lparr>errno := 0\<rparr>) = Some (res, w1)"
    by (auto simp: send_round_def split: Option.bind_splits)
  from mq_send_effect [OF send]
  have tr1: "own_events (trace w1) = own_events (trace w) @ [MqSend job res (errno w1)]"
    and e1: "errno w1 = 0 \<or> res = - 1"
    by simp_all
  show ?thesis
  proof (cases "res < 0 \<and> errno w1 \<noteq> EAGAIN")
    case True
    with assms send have g: "g = Some (GotoExit 2)"
      and w': "w' = (fprintf ''** ERROR **  Could not send parse job to the queue\<newline>'' [] w1)\<lparr>shutdown := 1\<rparr>"
      by (simp_all add: send_round_def)
    from w' tr1 have "own_events (trace w') = own_events (trace w) @
        [MqSend job res (errno w1), Fprintf ''** ERROR **  Could not send parse job to the queue\<newline>'' []]"
      by (simp add: own_simps)
    moreover from w' have "shutdown w' = 1"
      by simp
    ultimately show ?thesis
      using g True by blast
  next
    case False
    note ok = this
    show ?thesis
    proof (cases "errno w1 = EAGAIN")
      case True
      with e1 have res: "res = - 1"
        by (auto simp: EAGAIN_def)
      define wf where "wf = fprintf ''** WARNING **  Message queue filled up.  Will not add new messages to queue for the next 60 seconds\<newline>'' [] w1"
      from assms send ok True
      have "sleep 60 wf \<bind> (\<lambda>w2. Some (if errno w2 = EAGAIN then None else Some Next, w2)) = Some (g, w')"
        by (simp add: send_round_def wf_def)
      then obtain w2 where sl: "sleep 60 wf = Some w2"
        and gw: "(if errno w2 = EAGAIN then None else Some Next, w2) = (g, w')"
        by (cases "sleep 60 wf") simp_all
      from gw have g: "g = (if errno w2 = EAGAIN then None else Some Next)"
        by (metis fst_conv)
      from gw have w': "w' = w2"
        by (metis snd_conv)
      from sleep_effect [OF sl] True tr1 res w'
      have tr2: "own_events (trace w') = own_events (trace w) @
          [MqSend job (- 1) EAGAIN,
           Fprintf ''** WARNING **  Message queue filled up.  Will not add new messages to queue for the next 60 seconds\<newline>'' [],
           Sleep 60 (errno w2)]"
        by (simp add: own_simps wf_def)
      show ?thesis
      proof (cases "errno w2 = EAGAIN")
        case again: True
        with g have "g = None"
          by simp
        moreover from tr2 again
        have "own_events (trace w') = own_events (trace w) @ full_round job"
          by (simp add: full_round_def)
        ultimately show ?thesis
          by blast
      next
        case other: False
        with g have "g = Some Next"
          by simp
        with tr2 other show ?thesis
          by blast
      qed
    next
      case False
      with ok have pos: "0 \<le> res"
        by auto
      from False e1 pos have z: "errno w1 = 0"
        by auto
      from assms send ok False have "g = Some Next" and "w' = w1"
        by (simp_all add: send_round_def)
      with tr1 z pos show ?thesis
        by auto
    qed
  qed
qed

lemma send_loop_effect:
  assumes "send_loop job w = Some (f, w')"
  shows "\<exists>k. (\<exists>res. f = Next \<and> 0 \<le> res
          \<and> own_events (trace w') = own_events (trace w) @ concat (replicate k (full_round job))
               @ [MqSend job res 0])
    \<or> (\<exists>e. f = Next \<and> e \<noteq> EAGAIN
          \<and> own_events (trace w') = own_events (trace w) @ concat (replicate k (full_round job))
               @ [MqSend job (- 1) EAGAIN,
                  Fprintf ''** WARNING **  Message queue filled up.  Will not add new messages to queue for the next 60 seconds\<newline>'' [],
                  Sleep 60 e])
    \<or> (\<exists>res e. f = GotoExit 2 \<and> res < 0 \<and> e \<noteq> EAGAIN \<and> shutdown w' = 1
          \<and> own_events (trace w') = own_events (trace w) @ concat (replicate k (full_round job))
               @ [MqSend job res e, Fprintf ''** ERROR **  Could not send parse job to the queue\<newline>'' []])"
  using assms
proof (induction job w rule: send_loop.induct)
  case (1 job w)
  from "1.prems" obtain g w1 where r: "send_round job w = Some (g, w1)"
    by (auto simp: send_loop.simps [of job w] split: option.splits)
  show ?case
  proof (cases g)
    case None
    with "1.prems" r have rest: "send_loop job w1 = Some (f, w')"
      by (simp add: send_loop.simps [of job w])
    from send_round_effect [OF r] None
    have tr1: "own_events (trace w1) = own_events (trace w) @ full_round job"
      by simp
    from "1.IH" [OF r refl None rest] obtain k where
      "(\<exists>res. f = Next \<and> 0 \<le> res
          \<and> own_events (trace w') = own_events (trace w1) @ concat (replicate k (full_round job))
               @ [MqSend job res 0])
       \<or> (\<exists>e. f = Next \<and> e \<noteq> EAGAIN
          \<and> own_events (trace w') = own_events (trace w1) @ concat (replicate k (full_round job))
               @ [MqSend job (- 1) EAGAIN,
                  Fprintf ''** WARNING **  Message queue filled up.  Will not add new messages to queue for the next 60 seconds\<newline>'' [],
                  Sleep 60 e])
       \<or> (\<exists>res e. f = GotoExit 2 \<and> res < 0 \<and> e \<noteq> EAGAIN \<and> shutdown w' = 1
          \<and> own_events (trace w') = own_events (trace w1) @ concat (replicate k (full_round job))
               @ [MqSend job res e, Fprintf ''** ERROR **  Could not send parse job to the queue\<newline>'' []])"
      by blast
    with tr1 show ?thesis
      by (intro exI [of _ "Suc k"]) auto
  next
    case (Some f')
    with "1.prems" r have "f' = f" "w1 = w'"
      by (simp_all add: send_loop.simps [of job w])
    with send_round_effect [OF r] Some show ?thesis
      by (intro exI [of _ 0]) auto
  qed
qed

text \<open>One round of the poller's loop.\<close>

lemma poll_body_effect:
  assumes "poll_body w = Some (f, w')"
  shows "\<exists>it. own_events (trace w') = own_events (trace w) @ it
    \<and> (case f of Next \<Rightarrow> passing_round it
        | GotoExit rc \<Rightarrow> failing_round rc it \<and> shutdown w' = 1)"
proof -
  from assms obtain job w1 where get: "db_get_submissionqueue_job w = Some (job, w1)"
    by (auto simp: poll_body_def split: Option.bind_splits)
  from db_get_submissionqueue_job_effect [OF get]
  have tr1: "own_events (trace w1) = own_events (trace w) @ [DbGetJob job]" .
  show ?thesis
  proof (cases job)
    case None
    with assms get have "f = GotoExit 1"
      and "w' = (fprintf ''** ERROR **  Failed to get submission queue job - shutting down\<newline>'' [] w1)\<lparr>shutdown := 1\<rparr>"
      by (simp_all add: poll_body_def)
    moreover have "failing_round 1 claim_failed"
      unfolding failing_round_def by blast
    ultimately show ?thesis
      using tr1 None by (intro exI [of _ claim_failed]) (simp add: own_simps claim_failed_def)
  next
    case (Some j)
    show ?thesis
    proof (cases "status j = jbNONE")
      case True
      with assms get Some obtain n w2 where
        wt: "db_wait_notification ''rteval_submq'' (free_nullsafe_job j w1) = Some (n, w2)"
        by (auto simp: poll_body_def split: Option.bind_splits)
      from db_wait_notification_effect [OF wt] tr1 Some
      have tr2: "own_events (trace w2) = own_events (trace w) @ idle_round j n"
        by (simp add: idle_round_def free_nullsafe_job_def own_simps)
      show ?thesis
      proof (cases "n < 1")
        case n: True
        with assms get Some True wt have "f = GotoExit 1"
          and "w' = (fprintf ''** ERROR **  Failed to wait for DB notification\<newline>'' [] w2)\<lparr>shutdown := 1\<rparr>"
          by (simp_all add: poll_body_def)
        moreover from n True have "failing_round 1 (wait_failed j n)"
          unfolding failing_round_def by blast
        ultimately show ?thesis
          using tr2 by (intro exI [of _ "wait_failed j n"]) (simp add: own_simps wait_failed_def)
      next
        case n: False
        with assms get Some True wt have "f = Next" and "w' = w2"
          by (simp_all add: poll_body_def)
        moreover from n True have "passing_round (idle_round j n)"
          unfolding passing_round_def by (intro disjI2 exI [of _ j] exI [of _ n]) simp
        ultimately show ?thesis
          using tr2 by (intro exI [of _ "idle_round j n"]) simp
      qed
    next
      case False
      define w1' where "w1' = fprintf ''** New job: submid %i, %s\<newline>'' [ArgI (submid j), ArgS (filename j)] w1"
      from assms get Some False obtain g w2 where
        sl: "send_loop j w1' = Some (g, w2)"
        by (auto simp: poll_body_def w1'_def split: Option.bind_splits)
      have tr1': "own_events (trace w1') = own_events (trace w) @ claimed j 0"
        using tr1 Some by (simp add: w1'_def own_simps claimed_def)
      from send_loop_effect [OF sl] obtain k where k:
        "(\<exists>res. g = Next \<and> 0 \<le> res
          \<and> own_events (trace w2) = own_events (trace w1') @ concat (replicate k (full_round j))
               @ [MqSend j res 0])
         \<or> (\<exists>e. g = Next \<and> e \<noteq> EAGAIN
          \<and> own_events (trace w2) = own_events (trace w1') @ concat (replicate k (full_round j))
               @ [MqSend j (- 1) EAGAIN,
                  Fprintf ''** WARNING **  Message queue filled up.  Will not add new messages to queue for the next 60 seconds\<newline>'' [],
                  Sleep 60 e])
         \<or> (\<exists>res e. g = GotoExit 2 \<and> res < 0 \<and> e \<noteq> EAGAIN \<and> shutdown w2 = 1
          \<and> own_events (trace w2) = own_events (trace w1') @ concat (replicate k (full_round j))
               @ [MqSend j res e, Fprintf ''** ERROR **  Could not send parse job to the queue\<newline>'' []])"
        by blast
      have cl: "claimed j 0 @ concat (replicate k (full_round j)) = claimed j k"
        by (simp add: claimed_def)
      from k show ?thesis
      proof (elim disjE exE conjE)
        fix res
        assume g: "g = Next" and res: "0 \<le> res"
          and tr2: "own_events (trace w2) = own_events (trace w1') @ concat (replicate k (full_round j))
               @ [MqSend j res 0]"
        from assms get Some False sl g have "f = Next" and "w' = free_nullsafe_job j w2"
          by (simp_all add: poll_body_def w1'_def)
        moreover from False res have "passing_round (dispatched j k res)"
          unfolding passing_round_def by blast
        ultimately show ?thesis
          using tr2 tr1' cl
          by (intro exI [of _ "dispatched j k res"])
            (simp add: dispatched_def free_nullsafe_job_def own_simps)
      next
        fix e
        assume g: "g = Next" and e: "e \<noteq> EAGAIN"
          and tr2: "own_events (trace w2) = own_events (trace w1') @ concat (replicate k (full_round j))
               @ [MqSend j (- 1) EAGAIN,
                  Fprintf ''** WARNING **  Message queue filled up.  Will not add new messages to queue for the next 60 seconds\<newline>'' [],
                  Sleep 60 e]"
        from assms get Some False sl g have "f = Next" and "w' = free_nullsafe_job j w2"
          by (simp_all add: poll_body_def w1'_def)
        moreover from False e have "passing_round (abandoned j k e)"
          unfolding passing_round_def by blast
        ultimately show ?thesis
          using tr2 tr1' cl
          by (intro exI [of _ "abandoned j k e"])
            (simp add: abandoned_def free_nullsafe_job_def own_simps)
      next
        fix res e
        assume g: "g = GotoExit 2" and res: "res < 0" "e \<noteq> EAGAIN" and sd: "shutdown w2 = 1"
          and tr2: "own_events (trace w2) = own_events (trace w1') @ concat (replicate k (full_round j))
               @ [MqSend j res e, Fprintf ''** ERROR **  Could not send parse job to the queue\<newline>'' []]"
        from assms get Some False sl g have "f = GotoExit 2" and "w' = w2"
          by (simp_all add: poll_body_def w1'_def)
        moreover from False res have "failing_round 2 (send_failed j k res e)"
          unfolding failing_round_def by blast
        ultimately show ?thesis
          using tr2 tr1' cl sd
          by (intro exI [of _ "send_failed j k res e"]) (simp add: send_failed_def)
      qed
    qed
  qed
qed

lemma failing_round_rc: "failing_round rc it \<Longrightarrow> rc = 1 \<or> rc = 2"
  by (auto simp: failing_round_def)

lemma process_submission_queue_rounds:
  assumes "process_submission_queue w = Some (rc, w')"
  shows "shutdown w' \<noteq> 0 \<and> (rc \<noteq> 0 \<longrightarrow> shutdown w' = 1)
    \<and> (\<exists>its. own_events (trace w') = own_events (trace w) @ concat its \<and> poller_run rc its)"
  using assms
proof (induction w rule: process_submission_queue.induct)
  case (1 w)
  show ?case
  proof (cases "shutdown w = 0")
    case False
    with "1.prems" have "rc = 0" and "w' = w"
      by (simp_all add: process_submission_queue.simps [of w])
    with False show ?thesis
      by (auto simp: poller_run_def intro: exI [of _ "[]"])
  next
    case True
    with "1.prems" obtain f w1 where body: "poll_body w = Some (f, w1)"
      by (auto simp: process_submission_queue.simps [of w] split: option.splits)
    from poll_body_effect [OF body] obtain it where
      tr1: "own_events (trace w1) = own_events (trace w) @ it"
      and it: "case f of Next \<Rightarrow> passing_round it
        | GotoExit rc \<Rightarrow> failing_round rc it \<and> shutdown w1 = 1"
      by blast
    show ?thesis
    proof (cases f)
      case Next
      with "1.prems" True body have rest: "process_submission_queue w1 = Some (rc, w')"
        by (simp add: process_submission_queue.simps [of w])
      from "1.IH" [OF True body refl Next rest] obtain its where
        sd: "shutdown w' \<noteq> 0" "rc \<noteq> 0 \<longrightarrow> shutdown w' = 1"
        and tr2: "own_events (trace w') = own_events (trace w1) @ concat its"
        and run: "poller_run rc its"
        by blast
      from it Next have p: "passing_round it"
        by simp
      from run p have "poller_run rc (it # its)"
        by (auto simp: poller_run_def)
      moreover from tr1 tr2 have "own_events (trace w') = own_events (trace w) @ concat (it # its)"
        by simp
      ultimately show ?thesis
        using sd by blast
    next
      case (GotoExit rc')
      with "1.prems" True body have "rc = rc'" and "w' = w1"
        by (simp_all add: process_submission_queue.simps [of w])
      with it GotoExit have fr: "failing_round rc it" and sd: "shutdown w' = 1"
        by simp_all
      from failing_round_rc [OF fr] fr have "poller_run rc [it]"
        by (auto simp: poller_run_def)
      moreover from tr1 \<open>w' = w1\<close> have "own_events (trace w') = own_events (trace w) @ concat [it]"
        by simp
      ultimately show ?thesis
        using sd by (intro conjI impI exI [of _ "[it]"]) simp_all
    qed
  qed
qed

lemma failure_full_round: "filter failure_event (concat (replicate k (full_round j))) = []"
  by (induction k) (simp_all add: full_round_def)

lemma failure_claimed: "filter failure_event (claimed j k) = []"
  by (simp add: claimed_def failure_full_round)

lemma failure_passing_round: "passing_round it \<Longrightarrow> filter failure_event it = []"
  by (auto simp: passing_round_def dispatched_def abandoned_def idle_round_def failure_claimed)

lemma failure_passing_rounds:
  "list_all passing_round its \<Longrightarrow> filter failure_event (concat its) = []"
  by (induction its) (simp_all add: failure_passing_round)

lemma failure_failing_round:
  assumes "failing_round rc it"
  shows "(rc = 1 \<and> (filter failure_event it = [DbGetJob None]
            \<or> (\<exists>n. n < 1 \<and> filter failure_event it = [DbWaitNotification ''rteval_submq'' n])))
    \<or> (rc = 2 \<and> (\<exists>j res e. res < 0 \<and> e \<noteq> EAGAIN \<and> filter failure_event it = [MqSend j res e]))"
  using assms
  by (auto simp: failing_round_def claim_failed_def wait_failed_def idle_round_def
      send_failed_def failure_claimed)

lemma failure_poller_run:
  assumes "poller_run rc its"
  shows "(rc = 0 \<and> filter failure_event (concat its) = [])
    \<or> (rc = 1 \<and> (filter failure_event (concat its) = [DbGetJob None]
          \<or> (\<exists>n. n < 1 \<and> filter failure_event (concat its) = [DbWaitNotification ''rteval_submq'' n])))
    \<or> (rc = 2 \<and> (\<exists>j res e. res < 0 \<and> e \<noteq> EAGAIN
          \<and> filter failure_event (concat its) = [MqSend j res e]))"
proof (cases "rc = 0")
  case True
  with assms show ?thesis
    by (simp add: poller_run_def failure_passing_rounds)
next
  case False
  with assms have ne: "its \<noteq> []" and p: "list_all passing_round (butlast its)"
    and f: "failing_round rc (last its)"
    by (simp_all add: poller_run_def)
  from ne have "concat its = concat (butlast its) @ last its"
    by (metis append_butlast_last_id concat_append concat.simps(2) concat.simps(1) append_Nil2)
  then have "filter failure_event (concat its) = filter failure_event (last its)"
    using failure_passing_rounds [OF p] by simp
  with failure_failing_round [OF f] show ?thesis
    by simp
qed

lemma poller_run_round:
  assumes "poller_run rc its" and "it \<in> set its"
  shows "passing_round it \<or> (rc \<noteq> 0 \<and> it = last its \<and> failing_round rc it)"
proof (cases "rc = 0")
  case True
  with assms show ?thesis
    by (simp add: poller_run_def list_all_iff)
next
  case False
  with assms have ne: "its \<noteq> []" and p: "list_all passing_round (butlast its)"
    and f: "failing_round rc (last its)"
    by (simp_all add: poller_run_def)
  from append_butlast_last_id [OF ne] have "set (butlast its @ [last its]) = set its"
    by (rule arg_cong)
  then have "set its = set (butlast its) \<union> {last its}"
    by (simp only: set_append list.set Un_insert_right Un_empty_right)
  with assms(2) have "it \<in> set (butlast its) \<or> it = last its"
    by auto
  with p f False show ?thesis
    by (auto simp: list_all_iff)
qed

text \<open>
  C2. When \<^verbatim>\<open>process_submission_queue\<close> returns, the flag is set. The result is 0
  exactly when no call failed, so that the loop ended on its test of the flag; 1 exactly when
  a claim gave no job or a wait for a notification returned less than 1; 2 exactly when a
  send failed for another reason than a full queue. Whenever the result is not 0 the
  function has set the flag to 1 itself.
\<close>

theorem process_submission_queue_result:
  assumes "process_submission_queue w = Some (rc, w')"
  shows "shutdown w' \<noteq> 0 \<and> (rc \<noteq> 0 \<longrightarrow> shutdown w' = 1)
    \<and> (\<exists>es. own_events (trace w') = own_events (trace w) @ es
         \<and> (rc = 0) = (filter failure_event es = [])
         \<and> (rc = 1) = (DbGetJob None \<in> set es
               \<or> (\<exists>n. n < 1 \<and> DbWaitNotification ''rteval_submq'' n \<in> set es))
         \<and> (rc = 2) = (\<exists>j res e. res < 0 \<and> e \<noteq> EAGAIN \<and> MqSend j res e \<in> set es))"
proof -
  from process_submission_queue_rounds [OF assms] obtain its where
    sd: "shutdown w' \<noteq> 0" "rc \<noteq> 0 \<longrightarrow> shutdown w' = 1"
    and tr: "own_events (trace w') = own_events (trace w) @ concat its"
    and run: "poller_run rc its"
    by blast
  define es where "es = concat its"
  define F where "F = filter failure_event es"
  have A: "(DbGetJob None \<in> set es \<or> (\<exists>n. n < 1 \<and> DbWaitNotification ''rteval_submq'' n \<in> set es))
      = (DbGetJob None \<in> set F \<or> (\<exists>n. n < 1 \<and> DbWaitNotification ''rteval_submq'' n \<in> set F))"
    unfolding F_def by auto
  have B: "(\<exists>j res e. res < 0 \<and> e \<noteq> EAGAIN \<and> MqSend j res e \<in> set es)
      = (\<exists>j res e. res < 0 \<and> e \<noteq> EAGAIN \<and> MqSend j res e \<in> set F)"
    unfolding F_def by auto
  from failure_poller_run [OF run]
  consider (clean) "rc = 0" "F = []"
    | (claim) "rc = 1" "F = [DbGetJob None]"
    | (wait) n where "rc = 1" "n < 1" "F = [DbWaitNotification ''rteval_submq'' n]"
    | (send) j res e where "rc = 2" "res < 0" "e \<noteq> EAGAIN" "F = [MqSend j res e]"
    unfolding es_def F_def by blast
  then have "(rc = 0) = (F = [])
     \<and> (rc = 1) = (DbGetJob None \<in> set F
           \<or> (\<exists>n. n < 1 \<and> DbWaitNotification ''rteval_submq'' n \<in> set F))
     \<and> (rc = 2) = (\<exists>j res e. res < 0 \<and> e \<noteq> EAGAIN \<and> MqSend j res e \<in> set F)"
  proof cases
    case clean
    then show ?thesis
      by simp
  next
    case claim
    then show ?thesis
      by simp
  next
    case wait
    then show ?thesis
      by simp
  next
    case send
    then show ?thesis
      by simp
  qed
  then have "(rc = 0) = (filter failure_event es = [])
     \<and> (rc = 1) = (DbGetJob None \<in> set es
           \<or> (\<exists>n. n < 1 \<and> DbWaitNotification ''rteval_submq'' n \<in> set es))
     \<and> (rc = 2) = (\<exists>j res e. res < 0 \<and> e \<noteq> EAGAIN \<and> MqSend j res e \<in> set es)"
    unfolding A B unfolding F_def .
  with sd tr show ?thesis
    unfolding es_def by blast
qed

theorem process_submission_queue_result_witness:
  "map_option (\<lambda>(rc, w). (rc, shutdown w))
     (process_submission_queue (polling_world [RJob (Some sample_job), RErr 9])) = Some (2, 1)
   \<and> map_option (\<lambda>(rc, w). (rc, shutdown w))
     (process_submission_queue (polling_world [RJob None])) = Some (1, 1)
   \<and> map_option (\<lambda>(rc, w). (rc, shutdown w))
     (process_submission_queue (polling_world [RJob (Some sample_none), RInt 0])) = Some (1, 1)
   \<and> map_option (\<lambda>(rc, w). (rc, shutdown w))
     (process_submission_queue (polling_world [RJob (Some sample_none), RSignal SIGTERM, RInt 1])) =
       Some (0, 1)"
proof -
  have "map_option fst (process_submission_queue (polling_world [RJob (Some sample_job), RErr 9])) =
      Some 2"
    by code_simp
  then obtain w2 where r2:
    "process_submission_queue (polling_world [RJob (Some sample_job), RErr 9]) = Some (2, w2)"
    by auto
  from process_submission_queue_result [OF r2] have "shutdown w2 = 1"
    by simp
  with r2 have a: "map_option (\<lambda>(rc, w). (rc, shutdown w))
     (process_submission_queue (polling_world [RJob (Some sample_job), RErr 9])) = Some (2, 1)"
    by simp
  have "map_option fst (process_submission_queue (polling_world [RJob None])) = Some 1"
    by code_simp
  then obtain w1 where r1: "process_submission_queue (polling_world [RJob None]) = Some (1, w1)"
    by auto
  from process_submission_queue_result [OF r1] have "shutdown w1 = 1"
    by simp
  with r1 have b: "map_option (\<lambda>(rc, w). (rc, shutdown w))
     (process_submission_queue (polling_world [RJob None])) = Some (1, 1)"
    by simp
  have c: "map_option (\<lambda>(rc, w). (rc, shutdown w))
     (process_submission_queue (polling_world [RJob (Some sample_none), RInt 0])) = Some (1, 1)"
    by code_simp
  have d: "map_option (\<lambda>(rc, w). (rc, shutdown w))
     (process_submission_queue (polling_world [RJob (Some sample_none), RSignal SIGTERM, RInt 1])) =
       Some (0, 1)"
    by code_simp
  from a b c d show ?thesis
    by (intro conjI)
qed

text \<open>
  The rounds of a run of the poller, by their shapes. A round that claims a job with work
  logs the job, then sends that same job: after every send that reports a full queue it logs
  the warning and sleeps 60 seconds, with no claim in between. The round ends with a send
  that succeeds, after which the job is freed; with a send that fails for another reason,
  which ends the run with result 2; or after a sleep that comes back with another error
  number than the one of the full queue, with the job freed.
\<close>

lemma poller_round_shapes:
  assumes "process_submission_queue w = Some (rc, w')"
  shows "\<exists>its. own_events (trace w') = own_events (trace w) @ concat its
    \<and> (\<forall>it\<in>set its.
          (\<exists>j k res. status j \<noteq> jbNONE \<and> 0 \<le> res \<and> it = dispatched j k res)
          \<or> (\<exists>j k e. status j \<noteq> jbNONE \<and> e \<noteq> EAGAIN \<and> it = abandoned j k e)
          \<or> (\<exists>j k res e. status j \<noteq> jbNONE \<and> res < 0 \<and> e \<noteq> EAGAIN
                \<and> it = send_failed j k res e \<and> it = last its \<and> rc = 2)
          \<or> (\<exists>j n. status j = jbNONE \<and> (it = idle_round j n \<or> it = wait_failed j n))
          \<or> it = claim_failed)"
proof -
  from process_submission_queue_rounds [OF assms] obtain its where
    tr: "own_events (trace w') = own_events (trace w) @ concat its"
    and run: "poller_run rc its"
    by blast
  have "(\<exists>j k res. status j \<noteq> jbNONE \<and> 0 \<le> res \<and> it = dispatched j k res)
          \<or> (\<exists>j k e. status j \<noteq> jbNONE \<and> e \<noteq> EAGAIN \<and> it = abandoned j k e)
          \<or> (\<exists>j k res e. status j \<noteq> jbNONE \<and> res < 0 \<and> e \<noteq> EAGAIN
                \<and> it = send_failed j k res e \<and> it = last its \<and> rc = 2)
          \<or> (\<exists>j n. status j = jbNONE \<and> (it = idle_round j n \<or> it = wait_failed j n))
          \<or> it = claim_failed"
    if "it \<in> set its" for it
  proof -
    from poller_run_round [OF run that]
    consider (pass) "passing_round it" | (fail) "it = last its" "failing_round rc it"
      by blast
    then show ?thesis
    proof cases
      case pass
      then show ?thesis
        unfolding passing_round_def by blast
    next
      case fail
      then show ?thesis
        unfolding failing_round_def by blast
    qed
  qed
  with tr show ?thesis
    by blast
qed

text \<open>
  The retry does not read the shutdown flag. Here a signal arrives while the job is being
  sent and the queue is full: the flag is set, and the poller still warns, sleeps 60 seconds
  and sends the job again.
\<close>

lemma retry_while_shutting_down:
  "map_option (\<lambda>(rc, w). (rc, trace w))
     (process_submission_queue (polling_world
        [RJob (Some sample_job), RSignal SIGTERM, RErr 11, RInt 0, RInt 0])) =
     Some (0,
       [DbGetJob (Some sample_job),
        Fprintf ''** New job: submid %i, %s\<newline>'' [ArgI 7, ArgS ''report.xml''],
        Fprintf ''** SIGNAL ** Starting shutting down\<newline>'' [],
        Signal SIGINT Sigcatch, Signal SIGTERM Sigcatch,
        MqSend sample_job (- 1) 11,
        Fprintf ''** WARNING **  Message queue filled up.  Will not add new messages to queue for the next 60 seconds\<newline>'' [],
        Sleep 60 11,
        MqSend sample_job 0 0,
        FreeJob sample_job])"
  by code_simp


lemma in_full_rounds:
  "x \<in> set (concat (replicate k (full_round j))) \<Longrightarrow> x \<in> set (full_round j)"
  by (induction k) auto

lemma claimed_shape:
  "\<exists>rest. claimed j k = DbGetJob (Some j) # rest
     \<and> (\<forall>c. DbGetJob c \<notin> set rest)
     \<and> (\<forall>j' res e. MqSend j' res e \<in> set rest \<longrightarrow> j' = j)"
proof -
  have "DbGetJob c \<notin> set (concat (replicate k (full_round j)))" for c
    using in_full_rounds [of "DbGetJob c" k j] by (auto simp: full_round_def)
  moreover have "j' = j" if "MqSend j' res e \<in> set (concat (replicate k (full_round j)))"
    for j' res e
    using in_full_rounds [OF that] by (auto simp: full_round_def)
  ultimately show ?thesis
    unfolding claimed_def by auto
qed

text \<open>Every round starts with its one claim; a job without work is never sent.\<close>

lemma passing_round_shape:
  assumes "passing_round it"
  shows "\<exists>c rest. it = DbGetJob c # rest
          \<and> (\<forall>c'. DbGetJob c' \<notin> set rest)
          \<and> (\<forall>j res e. MqSend j res e \<in> set rest \<longrightarrow> status j \<noteq> jbNONE)
          \<and> (\<forall>j. c = Some j \<and> status j = jbNONE \<longrightarrow>
                (\<exists>n. 1 \<le> n \<and> rest = [FreeJob j, DbWaitNotification ''rteval_submq'' n])
                \<or> (\<exists>n. n < 1 \<and> rest = [FreeJob j, DbWaitNotification ''rteval_submq'' n,
                      Fprintf ''** ERROR **  Failed to wait for DB notification\<newline>'' []]
                    \<and> it = last its \<and> rc = 1 \<and> shutdown w' = 1))"
  using assms unfolding passing_round_def
proof (elim disjE exE conjE)
  fix j k res
  assume j: "status j \<noteq> jbNONE" and it: "it = dispatched j k res"
  from claimed_shape [of j k] obtain rest where
    c: "claimed j k = DbGetJob (Some j) # rest" "\<forall>c. DbGetJob c \<notin> set rest"
      "\<forall>j' res e. MqSend j' res e \<in> set rest \<longrightarrow> j' = j"
    by blast
  with j it show ?thesis
    by (intro exI [of _ "Some j"] exI [of _ "rest @ [MqSend j res 0, FreeJob j]"])
      (auto simp: dispatched_def)
next
  fix j k e
  assume j: "status j \<noteq> jbNONE" and it: "it = abandoned j k e"
  from claimed_shape [of j k] obtain rest where
    c: "claimed j k = DbGetJob (Some j) # rest" "\<forall>c. DbGetJob c \<notin> set rest"
      "\<forall>j' res e. MqSend j' res e \<in> set rest \<longrightarrow> j' = j"
    by blast
  with j it show ?thesis
    by (intro exI [of _ "Some j"] exI [of _ "rest @ [MqSend j (- 1) EAGAIN,
        Fprintf ''** WARNING **  Message queue filled up.  Will not add new messages to queue for the next 60 seconds\<newline>'' [],
        Sleep 60 e, FreeJob j]"])
      (auto simp: abandoned_def)
next
  fix j n
  assume "status j = jbNONE" "1 \<le> n" "it = idle_round j n"
  then show ?thesis
    by (intro exI [of _ "Some j"] exI [of _ "[FreeJob j, DbWaitNotification ''rteval_submq'' n]"])
      (auto simp: idle_round_def)
qed

lemma failing_round_shape:
  assumes "failing_round rc it" and "it = last its" and "shutdown w' = 1"
  shows "\<exists>c rest. it = DbGetJob c # rest
          \<and> (\<forall>c'. DbGetJob c' \<notin> set rest)
          \<and> (\<forall>j res e. MqSend j res e \<in> set rest \<longrightarrow> status j \<noteq> jbNONE)
          \<and> (\<forall>j. c = Some j \<and> status j = jbNONE \<longrightarrow>
                (\<exists>n. 1 \<le> n \<and> rest = [FreeJob j, DbWaitNotification ''rteval_submq'' n])
                \<or> (\<exists>n. n < 1 \<and> rest = [FreeJob j, DbWaitNotification ''rteval_submq'' n,
                      Fprintf ''** ERROR **  Failed to wait for DB notification\<newline>'' []]
                    \<and> it = last its \<and> rc = 1 \<and> shutdown w' = 1))"
  using assms(1) unfolding failing_round_def
proof (elim disjE exE conjE)
  assume "rc = 1" "it = claim_failed"
  then show ?thesis
    by (auto simp: claim_failed_def)
next
  fix j n
  assume "rc = 1" "status j = jbNONE" "n < 1" "it = wait_failed j n"
  with assms(2,3) show ?thesis
    by (intro exI [of _ "Some j"] exI [of _ "[FreeJob j, DbWaitNotification ''rteval_submq'' n,
              Fprintf ''** ERROR **  Failed to wait for DB notification\<newline>'' []]"])
      (auto simp: wait_failed_def idle_round_def)
next
  fix j k res e
  assume j: "status j \<noteq> jbNONE" and it: "it = send_failed j k res e"
  from claimed_shape [of j k] obtain rest where
    c: "claimed j k = DbGetJob (Some j) # rest" "\<forall>c. DbGetJob c \<notin> set rest"
      "\<forall>j' res e. MqSend j' res e \<in> set rest \<longrightarrow> j' = j"
    by blast
  with j it show ?thesis
    by (intro exI [of _ "Some j"] exI [of _ "rest @ [MqSend j res e,
        Fprintf ''** ERROR **  Could not send parse job to the queue\<newline>'' []]"])
      (auto simp: send_failed_def)
qed

text \<open>
  C6. Every round of the poller starts with its only claim. When the claim gives a job
  without work, the round frees it and waits for a notification on \<^verbatim>\<open>rteval_submq\<close>:
  if the wait returns at least 1 the round ends there, and the next claim is the start of the
  next round; if it returns less, the error is logged, the round is the last, the result
  is 1 and the flag is 1. No job that is sent is a job without work.
\<close>

theorem none_job_waits:
  assumes "process_submission_queue w = Some (rc, w')"
  shows "\<exists>its. own_events (trace w') = own_events (trace w) @ concat its
    \<and> (\<forall>it\<in>set its. \<exists>c rest. it = DbGetJob c # rest
          \<and> (\<forall>c'. DbGetJob c' \<notin> set rest)
          \<and> (\<forall>j res e. MqSend j res e \<in> set rest \<longrightarrow> status j \<noteq> jbNONE)
          \<and> (\<forall>j. c = Some j \<and> status j = jbNONE \<longrightarrow>
                (\<exists>n. 1 \<le> n \<and> rest = [FreeJob j, DbWaitNotification ''rteval_submq'' n])
                \<or> (\<exists>n. n < 1 \<and> rest = [FreeJob j, DbWaitNotification ''rteval_submq'' n,
                      Fprintf ''** ERROR **  Failed to wait for DB notification\<newline>'' []]
                    \<and> it = last its \<and> rc = 1 \<and> shutdown w' = 1)))"
proof -
  from process_submission_queue_rounds [OF assms] obtain its where
    sd: "rc \<noteq> 0 \<longrightarrow> shutdown w' = 1"
    and tr: "own_events (trace w') = own_events (trace w) @ concat its"
    and run: "poller_run rc its"
    by blast
  have "\<forall>it\<in>set its. \<exists>c rest. it = DbGetJob c # rest
          \<and> (\<forall>c'. DbGetJob c' \<notin> set rest)
          \<and> (\<forall>j res e. MqSend j res e \<in> set rest \<longrightarrow> status j \<noteq> jbNONE)
          \<and> (\<forall>j. c = Some j \<and> status j = jbNONE \<longrightarrow>
                (\<exists>n. 1 \<le> n \<and> rest = [FreeJob j, DbWaitNotification ''rteval_submq'' n])
                \<or> (\<exists>n. n < 1 \<and> rest = [FreeJob j, DbWaitNotification ''rteval_submq'' n,
                      Fprintf ''** ERROR **  Failed to wait for DB notification\<newline>'' []]
                    \<and> it = last its \<and> rc = 1 \<and> shutdown w' = 1))"
  proof
    fix it
    assume "it \<in> set its"
    from poller_run_round [OF run this]
    consider (pass) "passing_round it"
      | (fail) "rc \<noteq> 0" "it = last its" "failing_round rc it"
      by blast
    then show "\<exists>c rest. it = DbGetJob c # rest
          \<and> (\<forall>c'. DbGetJob c' \<notin> set rest)
          \<and> (\<forall>j res e. MqSend j res e \<in> set rest \<longrightarrow> status j \<noteq> jbNONE)
          \<and> (\<forall>j. c = Some j \<and> status j = jbNONE \<longrightarrow>
                (\<exists>n. 1 \<le> n \<and> rest = [FreeJob j, DbWaitNotification ''rteval_submq'' n])
                \<or> (\<exists>n. n < 1 \<and> rest = [FreeJob j, DbWaitNotification ''rteval_submq'' n,
                      Fprintf ''** ERROR **  Failed to wait for DB notification\<newline>'' []]
                    \<and> it = last its \<and> rc = 1 \<and> shutdown w' = 1))"
    proof cases
      case pass
      then show ?thesis
        by (rule passing_round_shape)
    next
      case fail
      from fail(1) sd have "shutdown w' = 1"
        by simp
      with fail(3,2) show ?thesis
        by (rule failing_round_shape)
    qed
  qed
  with tr show ?thesis
    by (intro exI [of _ its] conjI)
qed

theorem none_job_waits_witness:
  "map_option (\<lambda>(rc, w). (rc, shutdown w, own_events (trace w)))
     (process_submission_queue (polling_world
        [RJob (Some sample_none), RInt 1, RJob (Some sample_none), RInt 0])) =
     Some (1, 1, idle_round sample_none 1 @ wait_failed sample_none 0)
   \<and> (\<exists>its. idle_round sample_none 1 @ wait_failed sample_none 0 = concat its
        \<and> (\<forall>it\<in>set its. \<exists>c rest. it = DbGetJob c # rest \<and> (\<forall>c'. DbGetJob c' \<notin> set rest)))"
proof -
  define scr where "scr = [RJob (Some sample_none), RInt 1, RJob (Some sample_none), RInt 0]"
  define tr where "tr = idle_round sample_none 1 @ wait_failed sample_none 0"
  have run: "map_option (\<lambda>(rc, w). (rc, shutdown w, own_events (trace w)))
     (process_submission_queue (polling_world scr)) = Some (1, 1, tr)"
    unfolding scr_def tr_def by code_simp
  then obtain w' where r: "process_submission_queue (polling_world scr) = Some (1, w')"
    and t: "own_events (trace w') = tr"
    by auto
  have e: "own_events (trace (polling_world scr)) = []"
    by (simp add: polling_world_def initial_world_def own_events_def)
  from none_job_waits [OF r] obtain its where
    c: "own_events (trace w') = own_events (trace (polling_world scr)) @ concat its"
    and h: "\<forall>it\<in>set its. \<exists>c rest. it = DbGetJob c # rest
          \<and> (\<forall>c'. DbGetJob c' \<notin> set rest)
          \<and> (\<forall>j res e. MqSend j res e \<in> set rest \<longrightarrow> status j \<noteq> jbNONE)
          \<and> (\<forall>j. c = Some j \<and> status j = jbNONE \<longrightarrow>
                (\<exists>n. 1 \<le> n \<and> rest = [FreeJob j, DbWaitNotification ''rteval_submq'' n])
                \<or> (\<exists>n. n < 1 \<and> rest = [FreeJob j, DbWaitNotification ''rteval_submq'' n,
                      Fprintf ''** ERROR **  Failed to wait for DB notification\<newline>'' []]
                    \<and> it = last its \<and> (1 :: int) = 1 \<and> shutdown w' = 1))"
    by (elim exE conjE)
  from c have c': "tr = concat its"
    unfolding t e by simp
  have h': "\<forall>it\<in>set its. \<exists>c rest. it = DbGetJob c # rest \<and> (\<forall>c'. DbGetJob c' \<notin> set rest)"
  proof
    fix it
    assume "it \<in> set its"
    with h obtain c rest where "it = DbGetJob c # rest" "\<forall>c'. DbGetJob c' \<notin> set rest"
      by meson
    then show "\<exists>c rest. it = DbGetJob c # rest \<and> (\<forall>c'. DbGetJob c' \<notin> set rest)"
      by (intro exI conjI)
  qed
  from c' h' have "\<exists>its. tr = concat its
        \<and> (\<forall>it\<in>set its. \<exists>c rest. it = DbGetJob c # rest \<and> (\<forall>c'. DbGetJob c' \<notin> set rest))"
    by (intro exI [of _ its] conjI)
  with run show ?thesis
    unfolding scr_def tr_def by (intro conjI)
qed

subsection \<open>The worker pool\<close>

lemma pool_steps_append: "pool_steps (xs @ ys) = pool_steps xs @ pool_steps ys"
  by (simp add: pool_steps_def)

lemma pool_steps_Nil: "pool_steps [] = []"
  by (simp add: pool_steps_def)

lemma pool_steps_Cons: "pool_steps (e # es) = step_of e @ pool_steps es"
  by (simp add: pool_steps_def)

lemma pool_steps_filter: "pool_steps (filter (\<lambda>e. step_of e \<noteq> []) tr) = pool_steps tr"
  by (induction tr) (simp_all add: pool_steps_def)

lemma step_of_handler: "handler_event e \<Longrightarrow> step_of e = []"
  by (cases e) auto

lemma pool_steps_own: "pool_steps (own_events tr) = pool_steps tr"
  by (induction tr) (simp_all add: pool_steps_def own_events_def step_of_handler)

lemma await_pool_steps:
  assumes "await w = Some (r, w')"
  shows "pool_steps (trace w') = pool_steps (trace w)"
proof -
  have "filter (\<lambda>e. step_of e \<noteq> []) (trace w') = filter (\<lambda>e. step_of e \<noteq> []) (trace w)"
    using assms by (rule await_filter) (simp add: step_of_handler)
  then have "pool_steps (filter (\<lambda>e. step_of e \<noteq> []) (trace w')) =
      pool_steps (filter (\<lambda>e. step_of e \<noteq> []) (trace w))"
    by simp
  then show ?thesis
    by (simp only: pool_steps_filter)
qed

lemmas pool_simps = pool_steps_append pool_steps_Nil pool_steps_Cons trace_emit trace_fprintf

lemma read_config_pool:
  "read_config p s w = Some (c, w') \<Longrightarrow> pool_steps (trace w') = pool_steps (trace w)"
  by (auto simp: read_config_def pool_simps split: option.splits prod.splits response.splits
      dest: await_pool_steps)

lemma xsltParseStylesheetFile_pool:
  "xsltParseStylesheetFile path w = Some (x, w') \<Longrightarrow> pool_steps (trace w') = pool_steps (trace w)"
  by (auto simp: xsltParseStylesheetFile_def pool_simps
      split: option.splits prod.splits response.splits dest: await_pool_steps)

lemma parse_template_pool:
  "parse_template c w = Some (x, path, w') \<Longrightarrow> pool_steps (trace w') = pool_steps (trace w)"
  by (auto simp: parse_template_def Let_def split: Option.bind_splits
      dest: xsltParseStylesheetFile_pool)

lemma fopen_pool:
  "fopen p m w = Some (fp, w') \<Longrightarrow> pool_steps (trace w') = pool_steps (trace w)"
  by (auto simp: fopen_def pool_simps split: option.splits prod.splits response.splits
      dest: await_pool_steps)

lemma fread_pool:
  "fread b n fp w = Some (k, buf, w') \<Longrightarrow> pool_steps (trace w') = pool_steps (trace w)"
  by (auto simp: fread_def pool_simps split: option.splits prod.splits response.splits
      dest: await_pool_steps)

lemma get_mqueue_msg_max_pool:
  assumes "get_mqueue_msg_max w = Some (m, w')"
  shows "pool_steps (trace w') = pool_steps (trace w)"
proof -
  from assms obtain fp w1 where o: "fopen ''/proc/sys/fs/mqueue/msg_max'' ''r'' w = Some (fp, w1)"
    by (auto simp: get_mqueue_msg_max_def split: Option.bind_splits)
  note p1 = fopen_pool [OF o]
  show ?thesis
  proof (cases "fp = NULL")
    case True
    with assms o p1 show ?thesis
      by (auto simp: get_mqueue_msg_max_def pool_simps)
  next
    case False
    with assms o obtain n buf w2 where
      r: "fread (replicate 130 (CHR 0x00)) 128 fp w1 = Some (n, buf, w2)"
      by (auto simp: get_mqueue_msg_max_def split: Option.bind_splits)
    from assms o False r fread_pool [OF r] p1 show ?thesis
      by (auto simp: get_mqueue_msg_max_def pool_simps Let_def split: if_splits)
  qed
qed

lemma mq_open_pool:
  "mq_open n c w = Some (q, w') \<Longrightarrow> pool_steps (trace w') = pool_steps (trace w)"
  by (auto simp: mq_open_def pool_simps split: option.splits prod.splits response.splits
      dest: await_pool_steps)

lemma open_mq_pool:
  "open_mq w = Some (q, w') \<Longrightarrow> pool_steps (trace w') = pool_steps (trace w)"
  by (auto simp: open_mq_def split: Option.bind_splits
      dest!: get_mqueue_msg_max_pool mq_open_pool)

lemma db_connect_pool:
  "db_connect w = Some (p, w') \<Longrightarrow>
     pool_steps (trace w') = pool_steps (trace w) @ [(Connect, p \<noteq> NULL)]"
  by (auto simp: db_connect_def pool_simps split: option.splits prod.splits response.splits
      dest: await_pool_steps)

lemma calloc_pool:
  "calloc n w = Some (p, w') \<Longrightarrow> pool_steps (trace w') = pool_steps (trace w)"
  by (auto simp: calloc_def pool_simps split: option.splits prod.splits response.splits
      dest: await_pool_steps)

lemma malloc_nullsafe_pool:
  "malloc_nullsafe obj i w = Some (p, w') \<Longrightarrow>
     pool_steps (trace w') =
       pool_steps (trace w) @ (if obj = Thrdata then [(AllocContext i, p \<noteq> NULL)] else [])"
  by (auto simp: malloc_nullsafe_def pool_simps split: option.splits prod.splits response.splits
      dest: await_pool_steps)

lemma pthread_create_pool:
  "pthread_create i w = Some (r, w') \<Longrightarrow>
     pool_steps (trace w') = pool_steps (trace w) @ [(StartThread i, r = 0)]"
  by (auto simp: pthread_create_def pool_simps split: option.splits prod.splits response.splits
      dest: await_pool_steps)

lemma pthread_join_pool:
  "pthread_join i w = Some (r, w') \<Longrightarrow> pool_steps (trace w') = pool_steps (trace w)"
  by (auto simp: pthread_join_def pool_simps split: option.splits prod.splits response.splits
      dest: await_pool_steps)

lemma mq_close_pool:
  "mq_close q w = Some (r, w') \<Longrightarrow> pool_steps (trace w') = pool_steps (trace w)"
  by (auto simp: mq_close_def pool_simps split: option.splits prod.splits response.splits
      dest: await_pool_steps)

lemma mq_unlink_pool:
  "mq_unlink n w = Some (r, w') \<Longrightarrow> pool_steps (trace w') = pool_steps (trace w)"
  by (auto simp: mq_unlink_def pool_simps split: option.splits prod.splits response.splits
      dest: await_pool_steps)

text \<open>The loop at the exit builds no part of the pool.\<close>

lemma cleanup_slot_pool:
  assumes "cleanup_slot i l w = Some (d, w')"
  shows "pool_steps (trace w') = pool_steps (trace w)"
proof -
  define w1o where "w1o = (case l_threads l of
              None \<Rightarrow> Some w
            | Some ts \<Rightarrow>
                if ts ! i \<noteq> NULL then do {
                  (j_rc, wa) \<leftarrow> pthread_join i w;
                  let wb = (if j_rc \<noteq> 0
                            then fprintf ''** ERROR **  Failed to join thread %i: %s\<newline>''
                                   [ArgI (int i), ArgErr j_rc] wa
                            else wa);
                  Some (emit (FreeSlot ThreadAttr i) (emit (FreeSlot Thread i)
                    (emit (PthreadAttrDestroy i) wb)))
                }
                else Some w)"
  from assms obtain w1 where w1: "w1o = Some w1"
    unfolding cleanup_slot_def w1o_def by (auto split: Option.bind_splits)
  have p1: "pool_steps (trace w1) = pool_steps (trace w)"
    using w1 unfolding w1o_def
    by (auto simp: pool_simps Let_def split: option.splits if_splits Option.bind_splits
        dest!: pthread_join_pool)
  from assms w1 have "(case l_thrdata l of
       Indeterminate \<Rightarrow> Some (False, w1)
     | Value ds \<Rightarrow>
         (case ds ! i of
            None \<Rightarrow> Some (True, w1)
          | Some d \<Rightarrow> Some (True, emit (FreeSlot Thrdata i) (db_disconnect (td_dbc d) w1)))) =
      Some (d, w')"
    unfolding cleanup_slot_def w1o_def [symmetric] by simp
  with p1 show ?thesis
    by (auto simp: pool_simps db_disconnect_def split: var.splits option.splits)
qed

lemma cleanup_threads_pool:
  "cleanup_threads i l w = Some (d, w') \<Longrightarrow> pool_steps (trace w') = pool_steps (trace w)"
proof (induction i l w rule: cleanup_threads.induct)
  case (1 i l w)
  show ?case
  proof (cases "i < max_threads")
    case False
    with "1.prems" show ?thesis
      by (simp add: cleanup_threads.simps [of i l w])
  next
    case True
    with "1.prems" obtain b w1 where s: "cleanup_slot i l w = Some (b, w1)"
      by (auto simp: cleanup_threads.simps [of i l w] split: option.splits)
    note p = cleanup_slot_pool [OF s]
    show ?thesis
    proof (cases b)
      case True
      with "1.prems" \<open>i < max_threads\<close> s have "cleanup_threads (Suc i) l w1 = Some (d, w')"
        by (simp add: cleanup_threads.simps [of i l w])
      moreover from True have "b = True"
        by simp
      ultimately show ?thesis
        using "1.IH" [OF \<open>i < max_threads\<close> s refl] p by simp
    next
      case False
      with "1.prems" \<open>i < max_threads\<close> s p show ?thesis
        by (simp add: cleanup_threads.simps [of i l w])
    qed
  qed
qed

lemma main_exit_pool:
  assumes "main_exit rc l w = Some (out, w')"
  shows "pool_steps (trace w') = pool_steps (trace w)"
proof -
  from assms obtain d w1 where c: "cleanup_threads 0 l w = Some (d, w1)"
    by (auto simp: main_exit_def split: Option.bind_splits)
  note p1 = cleanup_threads_pool [OF c]
  show ?thesis
  proof (cases "d \<and> l_msgq l \<noteq> Indeterminate")
    case False
    with assms c p1 show ?thesis
      by (auto simp: main_exit_def pool_simps split: var.splits if_splits)
  next
    case True
    then obtain q where q: "l_msgq l = Value q" and d: d
      by (cases "l_msgq l") auto
    define wa where "wa = (emit (FreeArray ThreadAttr) (emit (FreeArray Thread)
      (emit (FreeArray Thrdata) w1)))\<lparr>errno := 0\<rparr>"
    have pa: "pool_steps (trace wa) = pool_steps (trace w)"
      using p1 by (simp add: wa_def pool_simps)
    from assms c q d obtain r w2 where cl: "mq_close q wa = Some (r, w2)"
      by (auto simp: main_exit_def wa_def split: Option.bind_splits)
    define w3 where "w3 = (if r < 0
                      then fprintf ''** ERROR **  Failed to close message queue: %s\<newline>''
                             [ArgErr (errno w2)] w2
                      else w2)"
    have p3: "pool_steps (trace w3) = pool_steps (trace w)"
      using mq_close_pool [OF cl] pa by (simp add: w3_def pool_simps)
    from assms c q d cl obtain u w4 where
      ul: "mq_unlink ''/rteval_parsequeue'' (w3\<lparr>errno := 0\<rparr>) = Some (u, w4)"
      by (auto simp: main_exit_def wa_def [symmetric] w3_def Let_def split: Option.bind_splits)
    have p4: "pool_steps (trace w4) = pool_steps (trace w)"
      using mq_unlink_pool [OF ul] p3 by simp
    from assms c q d cl ul have "w' = lib XsltCleanupGlobals (lib XmlCleanupParser
      (lib XsltFreeStylesheet (lib EFreeValues (db_disconnect (l_dbc l)
        (if u < 0
         then fprintf ''** ERROR **  Failed to remove the message queue: %s\<newline>''
                [ArgErr (errno w4)] w4
         else w4)))))"
      by (simp add: main_exit_def wa_def [symmetric] w3_def [symmetric] Let_def)
    with p4 show ?thesis
      by (simp add: lib_def db_disconnect_def pool_simps)
  qed
qed

text \<open>Nor does the poller.\<close>

lemma full_rounds_pool: "pool_steps (concat (replicate k (full_round j))) = []"
  by (induction k) (simp_all add: full_round_def pool_simps)

lemma passing_round_pool: "passing_round it \<Longrightarrow> pool_steps it = []"
  by (auto simp: passing_round_def dispatched_def abandoned_def claimed_def idle_round_def
      pool_simps full_rounds_pool)

lemma failing_round_pool: "failing_round rc it \<Longrightarrow> pool_steps it = []"
  by (auto simp: failing_round_def send_failed_def claimed_def wait_failed_def idle_round_def
      claim_failed_def pool_simps full_rounds_pool)

lemma rounds_pool:
  assumes "\<forall>it\<in>set its. pool_steps it = []"
  shows "pool_steps (concat its) = []"
  using assms by (induction its) (simp_all add: pool_simps)

lemma process_submission_queue_pool:
  assumes "process_submission_queue w = Some (rc, w')"
  shows "pool_steps (trace w') = pool_steps (trace w)"
proof -
  from process_submission_queue_rounds [OF assms] obtain its where
    tr: "own_events (trace w') = own_events (trace w) @ concat its"
    and run: "poller_run rc its"
    by blast
  have "\<forall>it\<in>set its. pool_steps it = []"
    using poller_run_round [OF run] passing_round_pool failing_round_pool by blast
  then have "pool_steps (concat its) = []"
    by (rule rounds_pool)
  moreover from tr have "pool_steps (own_events (trace w')) =
      pool_steps (own_events (trace w)) @ pool_steps (concat its)"
    by (simp add: pool_simps)
  ultimately show ?thesis
    by (simp add: pool_steps_own)
qed

lemma succeeded_append: "succeeded (xs @ ys) = succeeded xs @ succeeded ys"
  by (simp add: succeeded_def)

lemma succeeded_Cons: "succeeded (x # xs) = (x, True) # succeeded xs"
  by (simp add: succeeded_def)

lemma succeeded_Nil: "succeeded [] = []"
  by (simp add: succeeded_def)

lemma map_fst_succeeded: "map fst (succeeded xs) = xs"
  by (induction xs) (simp_all add: succeeded_def)

lemma all_succeeded:
  "\<forall>p\<in>set xs. snd p \<Longrightarrow> xs = succeeded (map fst xs)"
  by (induction xs) (auto simp: succeeded_def)

lemmas succeeded_simps = succeeded_append succeeded_Cons succeeded_Nil map_fst_succeeded

text \<open>One round of the preparation allocates one context and opens one connection.\<close>

lemma prepare_slot_pool:
  assumes "prepare_slot i rd l w = Some (f, l', w')"
  shows "(f = Next \<and> pool_steps (trace w') =
            pool_steps (trace w) @ succeeded [AllocContext i, Connect])
    \<or> (\<exists>rc xs. f = GotoExit rc \<and> pool_steps (trace w') = pool_steps (trace w) @ xs
          \<and> prefix (map fst xs) [AllocContext i, Connect])"
proof -
  from assms obtain td w1 where m1: "malloc_nullsafe Thrdata i w = Some (td, w1)"
    by (auto simp: prepare_slot_def split: Option.bind_splits)
  from malloc_nullsafe_pool [OF m1]
  have p1: "pool_steps (trace w1) = pool_steps (trace w) @ [(AllocContext i, td \<noteq> NULL)]"
    by simp
  show ?thesis
  proof (cases "td = NULL")
    case True
    with assms m1 have "f = GotoExit 2"
      and "w' = fprintf ''** ERROR **  Could not allocate memory for thread data\<newline>'' [] w1"
      by (simp_all add: prepare_slot_def)
    with p1 True have "f = GotoExit 2
        \<and> pool_steps (trace w') = pool_steps (trace w) @ [(AllocContext i, False)]
        \<and> prefix (map fst [(AllocContext i, False)]) [AllocContext i, Connect]"
      by (simp add: pool_simps)
    then show ?thesis
      by blast
  next
    case td: False
    with assms m1 obtain c w2 where dc: "db_connect w1 = Some (c, w2)"
      by (auto simp: prepare_slot_def split: Option.bind_splits)
    from db_connect_pool [OF dc] p1 td
    have p2: "pool_steps (trace w2) =
        pool_steps (trace w) @ [(AllocContext i, True), (Connect, c \<noteq> NULL)]"
      by simp
    show ?thesis
    proof (cases "c = NULL")
      case True
      with assms m1 td dc have "f = GotoExit 2"
        and "trace w' = trace w2 @
          [Fprintf ''** ERROR **  Could not connect to the database for thread %i\<newline>'' [ArgI (int i)]]"
        by (auto simp: prepare_slot_def Let_def trace_fprintf)
      with p2 True have "f = GotoExit 2
          \<and> pool_steps (trace w') =
              pool_steps (trace w) @ [(AllocContext i, True), (Connect, False)]
          \<and> prefix (map fst [(AllocContext i, True), (Connect, False)]) [AllocContext i, Connect]"
        by (simp add: pool_simps)
      then show ?thesis
        by blast
    next
      case c: False
      with assms m1 td dc obtain a w3 where m2: "malloc_nullsafe ThreadAttr i w2 = Some (a, w3)"
        by (auto simp: prepare_slot_def Let_def split: Option.bind_splits)
      from malloc_nullsafe_pool [OF m2] p2 c
      have p3: "pool_steps (trace w3) = pool_steps (trace w) @ succeeded [AllocContext i, Connect]"
        by (simp add: succeeded_simps)
      have stop: ?thesis if "f = GotoExit 2"
        and "pool_steps (trace w') = pool_steps (trace w) @ succeeded [AllocContext i, Connect]"
      proof -
        from that have "f = GotoExit 2
            \<and> pool_steps (trace w') = pool_steps (trace w) @ succeeded [AllocContext i, Connect]
            \<and> prefix (map fst (succeeded [AllocContext i, Connect])) [AllocContext i, Connect]"
          by (simp add: succeeded_simps)
        then show ?thesis
          by blast
      qed
      show ?thesis
      proof (cases "a = NULL")
        case True
        with assms m1 td dc c m2 have "f = GotoExit 2"
          and "w' = fprintf ''** ERROR **  Could not allocate memory for thread attributes\<newline>'' [] w3"
          by (simp_all add: prepare_slot_def Let_def)
        with p3 show ?thesis
          by (intro stop) (simp_all add: pool_simps)
      next
        case a: False
        with assms m1 td dc c m2 obtain t w4 where
          m3: "malloc_nullsafe Thread i
             (emit (PthreadAttrSetJoinable i) (emit (PthreadAttrInit i) w3)) = Some (t, w4)"
          by (auto simp: prepare_slot_def Let_def split: Option.bind_splits)
        from malloc_nullsafe_pool [OF m3] p3
        have p4: "pool_steps (trace w4) = pool_steps (trace w) @ succeeded [AllocContext i, Connect]"
          by (simp add: pool_simps)
        show ?thesis
        proof (cases "t = NULL")
          case True
          with assms m1 td dc c m2 a m3 have "f = GotoExit 2"
            and "w' = fprintf ''** ERROR **  Could not allocate memory for pthread_t\<newline>'' [] w4"
            by (simp_all add: prepare_slot_def Let_def)
          with p4 show ?thesis
            by (intro stop) (simp_all add: pool_simps)
        next
          case False
          with assms m1 td dc c m2 a m3 have "f = Next" and "w' = w4"
            by (simp_all add: prepare_slot_def Let_def)
          with p4 show ?thesis
            by simp
        qed
      qed
    qed
  qed
qed

lemma prepare_threads_pool:
  assumes "prepare_threads i rd l w = Some (f, l', w')"
  shows "(f = Next \<and> pool_steps (trace w') = pool_steps (trace w)
            @ succeeded (concat (map (\<lambda>k. [AllocContext k, Connect]) [i..<max_threads])))
    \<or> (\<exists>rc xs. f = GotoExit rc \<and> pool_steps (trace w') = pool_steps (trace w) @ xs
          \<and> prefix (map fst xs) (concat (map (\<lambda>k. [AllocContext k, Connect]) [i..<max_threads])))"
  using assms
proof (induction i rd l w rule: prepare_threads.induct)
  case (1 i rd l w)
  show ?case
  proof (cases "i < max_threads")
    case False
    with "1.prems" show ?thesis
      by (simp add: prepare_threads.simps [of i rd l w] succeeded_simps)
  next
    case True
    with "1.prems" obtain g l1 w1 where s: "prepare_slot i rd l w = Some (g, l1, w1)"
      by (auto simp: prepare_threads.simps [of i rd l w] split: option.splits)
    have up: "[i..<max_threads] = i # [Suc i..<max_threads]"
      using True by (rule upt_conv_Cons)
    show ?thesis
    proof (cases g)
      case Next
      with "1.prems" True s have rest: "prepare_threads (Suc i) rd l1 w1 = Some (f, l', w')"
        by (simp add: prepare_threads.simps [of i rd l w])
      from prepare_slot_pool [OF s] Next
      have p1: "pool_steps (trace w1) = pool_steps (trace w) @ succeeded [AllocContext i, Connect]"
        by simp
      from "1.IH" [OF True s refl Next refl rest] show ?thesis
      proof
        assume "f = Next \<and> pool_steps (trace w') = pool_steps (trace w1)
            @ succeeded (concat (map (\<lambda>k. [AllocContext k, Connect]) [Suc i..<max_threads]))"
        with p1 show ?thesis
          by (simp add: up succeeded_simps)
      next
        assume "\<exists>rc xs. f = GotoExit rc \<and> pool_steps (trace w') = pool_steps (trace w1) @ xs
            \<and> prefix (map fst xs) (concat (map (\<lambda>k. [AllocContext k, Connect]) [Suc i..<max_threads]))"
        then obtain rc xs where f: "f = GotoExit rc"
          and t: "pool_steps (trace w') = pool_steps (trace w1) @ xs"
          and pre: "prefix (map fst xs) (concat (map (\<lambda>k. [AllocContext k, Connect]) [Suc i..<max_threads]))"
          by blast
        from t p1 pre have "pool_steps (trace w') =
            pool_steps (trace w) @ (succeeded [AllocContext i, Connect] @ xs)
          \<and> prefix (map fst (succeeded [AllocContext i, Connect] @ xs))
              (concat (map (\<lambda>k. [AllocContext k, Connect]) [i..<max_threads]))"
          by (simp add: up succeeded_simps)
        with f show ?thesis
          by blast
      qed
    next
      case (GotoExit rc)
      with "1.prems" True s have f: "f = GotoExit rc" and w': "w' = w1"
        by (simp_all add: prepare_threads.simps [of i rd l w])
      from prepare_slot_pool [OF s] GotoExit obtain xs where
        t: "pool_steps (trace w1) = pool_steps (trace w) @ xs"
        and pre: "prefix (map fst xs) [AllocContext i, Connect]"
        by auto
      from pre have "prefix (map fst xs)
          ([AllocContext i, Connect] @ concat (map (\<lambda>k. [AllocContext k, Connect]) [Suc i..<max_threads]))"
        by (rule prefix_prefix)
      then have "prefix (map fst xs) (concat (map (\<lambda>k. [AllocContext k, Connect]) [i..<max_threads]))"
        by (simp add: up)
      with f w' t show ?thesis
        by blast
    qed
  qed
qed

text \<open>
  The loop that starts the threads calls \<^verbatim>\<open>pthread_create\<close> for the workers in
  turn, and goes on after a call that returns a positive error number.
\<close>

lemma start_threads_pool:
  assumes "start_threads i w = Some (f, w')"
  shows "\<exists>xs. pool_steps (trace w') = pool_steps (trace w) @ xs
    \<and> (f = Next \<and> map fst xs = map StartThread [i..<max_threads]
        \<or> (\<exists>rc. f = GotoExit rc) \<and> prefix (map fst xs) (map StartThread [i..<max_threads]))"
  using assms
proof (induction i w rule: start_threads.induct)
  case (1 i w)
  show ?case
  proof (cases "i < max_threads")
    case False
    with "1.prems" have "f = Next" and "w' = w"
      by (simp_all add: start_threads.simps [of i w])
    with False show ?thesis
      by (intro exI [of _ "[]"]) simp
  next
    case True
    with "1.prems" obtain r w1 where s: "pthread_create i w = Some (r, w1)"
      by (auto simp: start_threads.simps [of i w] split: option.splits)
    from pthread_create_pool [OF s]
    have p1: "pool_steps (trace w1) = pool_steps (trace w) @ [(StartThread i, r = 0)]" .
    have up: "[i..<max_threads] = i # [Suc i..<max_threads]"
      using True by (rule upt_conv_Cons)
    show ?thesis
    proof (cases "r < 0")
      case neg: True
      with "1.prems" True s have "f = GotoExit 3"
        and "w' = fprintf ''** ERROR **  Failed to start thread %i: %s'' [ArgI (int i), ArgErr r] w1"
        by (simp_all add: start_threads.simps [of i w])
      with p1 show ?thesis
        by (intro exI [of _ "[(StartThread i, r = 0)]"]) (simp add: pool_simps up)
    next
      case False
      with "1.prems" True s have rest: "start_threads (Suc i) w1 = Some (f, w')"
        by (simp add: start_threads.simps [of i w])
      from "1.IH" [OF True s refl False rest] obtain xs where
        t: "pool_steps (trace w') = pool_steps (trace w1) @ xs"
        and sh: "f = Next \<and> map fst xs = map StartThread [Suc i..<max_threads]
          \<or> (\<exists>rc. f = GotoExit rc) \<and> prefix (map fst xs) (map StartThread [Suc i..<max_threads])"
        by blast
      from t p1 sh show ?thesis
        by (intro exI [of _ "(StartThread i, r = 0) # xs"]) (auto simp: up)
    qed
  qed
qed

lemma main_threads_pool:
  assumes "main_threads l w = Some (out, w')"
  shows "(\<exists>xs. pool_steps (trace w') =
            pool_steps (trace w) @ succeeded pool_contexts @ xs @ [(StartChecker, True)]
          \<and> map fst xs = pool_threads)
    \<or> (\<exists>xs. pool_steps (trace w') = pool_steps (trace w) @ xs
          \<and> prefix (map fst xs) (pool_contexts @ pool_threads))"
proof -
  from assms obtain t1 w1 t2 w2 t3 w3 where
    c1: "calloc (max_threads + 1) w = Some (t1, w1)"
    and c2: "calloc (max_threads + 1) w1 = Some (t2, w2)"
    and c3: "calloc (max_threads + 1) w2 = Some (t3, w3)"
    by (auto simp: main_threads_def split: Option.bind_splits)
  from calloc_pool [OF c1] calloc_pool [OF c2] calloc_pool [OF c3]
  have p3: "pool_steps (trace w3) = pool_steps (trace w)"
    by simp
  have short: ?thesis
    if "pool_steps (trace w') = pool_steps (trace w) @ xs"
      and "prefix (map fst xs) (pool_contexts @ pool_threads)" for xs
    using that by blast
  show ?thesis
  proof (cases "t1 \<noteq> NULL \<and> t2 \<noteq> NULL \<and> t3 \<noteq> NULL")
    case False
    with assms c1 c2 c3 have "w' = w3"
      by (auto simp: main_threads_def)
    with p3 show ?thesis
      by (intro short [of "[]"]) simp_all
  next
    case ok: True
    define l1 where "l1 = l\<lparr>l_threads := Some (replicate (max_threads + 1) NULL),
                  l_thread_attrs := Some (replicate (max_threads + 1) NULL),
                  l_thrdata := Value (replicate (max_threads + 1) None)\<rparr>"
    from assms c1 c2 c3 ok obtain f l2 w4 where
      pr: "prepare_threads 0 (eGet_value (l_config l) ''reportdir'') l1 w3 = Some (f, l2, w4)"
      by (auto simp: main_threads_def l1_def Let_def split: Option.bind_splits)
    from assms c1 c2 c3 ok pr have rest: "(case f of
         GotoExit rc \<Rightarrow> main_exit rc l2 w4
       | Next \<Rightarrow> do {
           (g, w5) \<leftarrow> start_threads 0 (signal SIGTERM Sigcatch (signal SIGINT Sigcatch w4));
           case g of
             GotoExit rc \<Rightarrow> main_exit rc l2 w5
           | Next \<Rightarrow> do {
               (rc, w6) \<leftarrow> process_submission_queue
                 (fprintf ''** Starting submission queue checker\<newline>'' [] w5);
               main_exit rc l2 (fprintf ''** Submission queue checker shut down\<newline>'' [] w6)
             }
         }) = Some (out, w')"
      by (simp add: main_threads_def l1_def Let_def)
    show ?thesis
    proof (cases f)
      case (GotoExit rc)
      with rest have ex: "main_exit rc l2 w4 = Some (out, w')"
        by simp
      from prepare_threads_pool [OF pr] GotoExit obtain xs where
        t: "pool_steps (trace w4) = pool_steps (trace w3) @ xs"
        and pre: "prefix (map fst xs) pool_contexts"
        by (auto simp: pool_contexts_def)
      from pre have "prefix (map fst xs) (pool_contexts @ pool_threads)"
        by (rule prefix_prefix)
      with main_exit_pool [OF ex] t p3 show ?thesis
        by (intro short [of xs]) simp_all
    next
      case Next
      define ws where "ws = signal SIGTERM Sigcatch (signal SIGINT Sigcatch w4)"
      from prepare_threads_pool [OF pr] Next p3
      have p4: "pool_steps (trace ws) = pool_steps (trace w) @ succeeded pool_contexts"
        by (simp add: ws_def signal_def pool_simps pool_contexts_def)
      from rest Next obtain g w5 where st: "start_threads 0 ws = Some (g, w5)"
        by (auto simp: ws_def split: Option.bind_splits)
      from rest Next st have rest2: "(case g of
             GotoExit rc \<Rightarrow> main_exit rc l2 w5
           | Next \<Rightarrow> do {
               (rc, w6) \<leftarrow> process_submission_queue
                 (fprintf ''** Starting submission queue checker\<newline>'' [] w5);
               main_exit rc l2 (fprintf ''** Submission queue checker shut down\<newline>'' [] w6)
             }) = Some (out, w')"
        by (simp add: ws_def [symmetric])
      from start_threads_pool [OF st] obtain xs where
        t5: "pool_steps (trace w5) = pool_steps (trace ws) @ xs"
        and sh: "g = Next \<and> map fst xs = pool_threads
          \<or> (\<exists>rc. g = GotoExit rc) \<and> prefix (map fst xs) pool_threads"
        by (auto simp: pool_threads_def)
      show ?thesis
      proof (cases g)
        case (GotoExit rc)
        with rest2 have ex: "main_exit rc l2 w5 = Some (out, w')"
          by simp
        from sh GotoExit have "prefix (map fst xs) pool_threads"
          by simp
        then have "prefix (map fst (succeeded pool_contexts @ xs)) (pool_contexts @ pool_threads)"
          by (simp add: succeeded_simps)
        with main_exit_pool [OF ex] t5 p4 show ?thesis
          by (intro short [of "succeeded pool_contexts @ xs"]) simp_all
      next
        case g: Next
        with sh have m: "map fst xs = pool_threads"
          by simp
        from rest2 g obtain rc w6 where
          q: "process_submission_queue
                (fprintf ''** Starting submission queue checker\<newline>'' [] w5) = Some (rc, w6)"
          and ex: "main_exit rc l2 (fprintf ''** Submission queue checker shut down\<newline>'' [] w6)
                = Some (out, w')"
          by (auto split: Option.bind_splits)
        from process_submission_queue_pool [OF q] t5 p4
        have "pool_steps (trace w6) =
            pool_steps (trace w) @ succeeded pool_contexts @ xs @ [(StartChecker, True)]"
          by (simp add: pool_simps)
        with main_exit_pool [OF ex]
        have "pool_steps (trace w') =
            pool_steps (trace w) @ succeeded pool_contexts @ xs @ [(StartChecker, True)]"
          by (simp add: pool_simps)
        with m show ?thesis
          by blast
      qed
    qed
  qed
qed

lemma main_pool:
  assumes "main w = Some (out, w')"
  shows "(\<exists>xs. pool_steps (trace w') =
            pool_steps (trace w) @ succeeded (Connect # pool_contexts) @ xs @ [(StartChecker, True)]
          \<and> map fst xs = pool_threads)
    \<or> (\<exists>xs. pool_steps (trace w') = pool_steps (trace w) @ xs
          \<and> prefix (map fst xs) (Connect # pool_contexts @ pool_threads))"
proof -
  from assms obtain config w1 where
    rc: "read_config ''/etc/rteval.conf'' ''xmlrpc_parser'' (lib XmlInitParser (lib XsltInit w))
           = Some (config, w1)"
    by (auto simp: main_def split: Option.bind_splits)
  from read_config_pool [OF rc] have p1: "pool_steps (trace w1) = pool_steps (trace w)"
    by (simp add: lib_def pool_simps)
  from assms rc obtain xslt xsltfile w2 where
    pt: "parse_template config w1 = Some (xslt, xsltfile, w2)"
    by (auto simp: main_def split: Option.bind_splits)
  from parse_template_pool [OF pt] p1 have p2: "pool_steps (trace w2) = pool_steps (trace w)"
    by simp
  define l where "l = \<lparr>l_config = config, l_xslt = xslt, l_dbc = NULL, l_threads = None,
              l_thread_attrs = None, l_thrdata = Indeterminate, l_msgq = Indeterminate\<rparr>"
  have short: ?thesis
    if "pool_steps (trace w') = pool_steps (trace w) @ xs"
      and "prefix (map fst xs) (Connect # pool_contexts @ pool_threads)" for xs
    using that by blast
  have quiet: ?thesis if "main_exit r l' v = Some (out, w')"
    and "pool_steps (trace v) = pool_steps (trace w)" for r l' v
    using main_exit_pool [OF that(1)] that(2) by (intro short [of "[]"]) simp_all
  show ?thesis
  proof (cases "xslt = NULL")
    case True
    with assms rc pt have "main_exit 2 l
         (fprintf ''** ERROR **  Could not parse XSLT template: %s\<newline>'' [ArgS xsltfile] w2)
        = Some (out, w')"
      by (simp add: main_def l_def)
    then show ?thesis
      by (rule quiet) (simp add: p2 pool_simps)
  next
    case x: False
    with assms rc pt obtain msgq w3 where om: "open_mq w2 = Some (msgq, w3)"
      by (auto simp: main_def split: Option.bind_splits)
    from open_mq_pool [OF om] p2 have p3: "pool_steps (trace w3) = pool_steps (trace w)"
      by simp
    show ?thesis
    proof (cases "msgq < 0")
      case True
      with assms rc pt x om have "main_exit 2 (l\<lparr>l_msgq := Value msgq\<rparr>)
           (fprintf ''** ERROR **  Could not open message queue: %s\<newline>'' [ArgErr (errno w3)] w3)
          = Some (out, w')"
        by (simp add: main_def l_def)
      then show ?thesis
        by (rule quiet) (simp add: p3 pool_simps)
    next
      case q: False
      with assms rc pt x om obtain dbc w4 where dc: "db_connect w3 = Some (dbc, w4)"
        by (auto simp: main_def split: Option.bind_splits)
      from db_connect_pool [OF dc] p3
      have p4: "pool_steps (trace w4) = pool_steps (trace w) @ [(Connect, dbc \<noteq> NULL)]"
        by simp
      show ?thesis
      proof (cases "dbc = NULL")
        case True
        with assms rc pt x om q dc
        have ex: "main_exit 2 (l\<lparr>l_msgq := Value msgq, l_dbc := dbc\<rparr>) w4 = Some (out, w')"
          by (simp add: main_def l_def)
        from main_exit_pool [OF ex] p4 show ?thesis
          by (intro short [of "[(Connect, dbc \<noteq> NULL)]"]) simp_all
      next
        case False
        with assms rc pt x om q dc
        have mt: "main_threads (l\<lparr>l_msgq := Value msgq, l_dbc := dbc\<rparr>) w4 = Some (out, w')"
          by (simp add: main_def l_def)
        from main_threads_pool [OF mt] show ?thesis
        proof
          assume "\<exists>xs. pool_steps (trace w') =
              pool_steps (trace w4) @ succeeded pool_contexts @ xs @ [(StartChecker, True)]
            \<and> map fst xs = pool_threads"
          with p4 False show ?thesis
            by (auto simp: succeeded_simps)
        next
          assume "\<exists>xs. pool_steps (trace w') = pool_steps (trace w4) @ xs
            \<and> prefix (map fst xs) (pool_contexts @ pool_threads)"
          then obtain xs where t: "pool_steps (trace w') = pool_steps (trace w4) @ xs"
            and pre: "prefix (map fst xs) (pool_contexts @ pool_threads)"
            by blast
          from t p4 pre show ?thesis
            by (intro short [of "(Connect, dbc \<noteq> NULL) # xs"]) simp_all
        qed
      qed
    qed
  qed
qed

lemma pool_steps_starting:
  "Fprintf ''** Starting submission queue checker\<newline>'' [] \<in> set tr \<Longrightarrow>
     (StartChecker, True) \<in> set (pool_steps tr)"
  by (induction tr) (auto simp: pool_simps)

text \<open>A start that failed is a call of \<^verbatim>\<open>pthread_create\<close> that did not return 0.\<close>

lemma step_of_failed_start:
  "(StartThread i, False) \<in> set (step_of e) \<Longrightarrow> \<exists>r. r \<noteq> 0 \<and> e = PthreadCreate i r"
  by (cases e) (auto split: if_splits)

lemma pool_steps_failed_start:
  "(StartThread i, False) \<in> set (pool_steps tr) \<Longrightarrow>
     \<exists>r. r \<noteq> 0 \<and> PthreadCreate i r \<in> set tr"
  by (induction tr) (auto simp: pool_simps dest: step_of_failed_start)

lemma no_checker_before:
  "StartChecker \<notin> set (Connect # pool_contexts @ pool_threads)"
  by (auto simp: pool_contexts_def pool_threads_def)

lemma pool_complete:
  "Connect # pool_built =
     [Connect,
      AllocContext 0, Connect, AllocContext 1, Connect, AllocContext 2, Connect,
      AllocContext 3, Connect, AllocContext 4, Connect,
      StartThread 0, StartThread 1, StartThread 2, StartThread 3, StartThread 4,
      StartChecker]"
  by code_simp

text \<open>
  C8, as amended. Whatever the configuration and the answers of the environment, a run of
  \<^verbatim>\<open>main\<close> builds the pool in one order and goes no further than the whole of it: the
  connection of the dispatcher; for each of the workers 0 to 4 one context and one
  connection; then one call of \<^verbatim>\<open>pthread_create\<close> for each of the workers 0 to 4.
  A run that reaches the submission queue checker has made all of these steps; its 5
  contexts and its 6 connections are there, and so are its 5 threads when every call of
  \<^verbatim>\<open>pthread_create\<close> returned 0.
\<close>

theorem worker_pool_size:
  assumes "main (initial_world scr) = Some (out, w')"
  shows "prefix (map fst (pool_steps (trace w')))
       [Connect,
        AllocContext 0, Connect, AllocContext 1, Connect, AllocContext 2, Connect,
        AllocContext 3, Connect, AllocContext 4, Connect,
        StartThread 0, StartThread 1, StartThread 2, StartThread 3, StartThread 4,
        StartChecker]
    \<and> (Fprintf ''** Starting submission queue checker\<newline>'' [] \<in> set (trace w') \<longrightarrow>
         map fst (pool_steps (trace w')) =
           [Connect,
            AllocContext 0, Connect, AllocContext 1, Connect, AllocContext 2, Connect,
            AllocContext 3, Connect, AllocContext 4, Connect,
            StartThread 0, StartThread 1, StartThread 2, StartThread 3, StartThread 4,
            StartChecker]
         \<and> (\<forall>s. (s, False) \<in> set (pool_steps (trace w')) \<longrightarrow> (\<exists>i. s = StartThread i))
         \<and> ((\<forall>i r. PthreadCreate i r \<in> set (trace w') \<longrightarrow> r = 0) \<longrightarrow>
              pool_steps (trace w') = succeeded
                [Connect,
                 AllocContext 0, Connect, AllocContext 1, Connect, AllocContext 2, Connect,
                 AllocContext 3, Connect, AllocContext 4, Connect,
                 StartThread 0, StartThread 1, StartThread 2, StartThread 3, StartThread 4,
                 StartChecker]))"
proof -
  define steps where "steps = pool_steps (trace w')"
  define full where "full = Connect # pool_built"
  have e: "pool_steps (trace (initial_world scr)) = []"
    by (simp add: initial_world_def pool_simps)
  have goal: "prefix (map fst steps) full
    \<and> (Fprintf ''** Starting submission queue checker\<newline>'' [] \<in> set (trace w') \<longrightarrow>
         map fst steps = full
         \<and> (\<forall>s. (s, False) \<in> set steps \<longrightarrow> (\<exists>i. s = StartThread i))
         \<and> ((\<forall>i r. PthreadCreate i r \<in> set (trace w') \<longrightarrow> r = 0) \<longrightarrow>
              steps = succeeded full))"
    using main_pool [OF assms]
  proof
    assume "\<exists>xs. pool_steps (trace w') = pool_steps (trace (initial_world scr))
        @ succeeded (Connect # pool_contexts) @ xs @ [(StartChecker, True)]
      \<and> map fst xs = pool_threads"
    with e obtain xs where
      st: "steps = succeeded (Connect # pool_contexts) @ xs @ [(StartChecker, True)]"
      and m: "map fst xs = pool_threads"
      by (auto simp: steps_def)
    from st m have mf: "map fst steps = full"
      by (simp add: full_def pool_built_def succeeded_simps)
    have fails: "\<exists>i. s = StartThread i" if "(s, False) \<in> set steps" for s
    proof -
      from that st have "(s, False) \<in> set xs"
        by (auto simp: succeeded_def)
      then have "s \<in> set (map fst xs)"
        by force
      with m show ?thesis
        by (auto simp: pool_threads_def)
    qed
    have all: "steps = succeeded full"
      if zero: "\<forall>i r. PthreadCreate i r \<in> set (trace w') \<longrightarrow> r = 0"
    proof -
      have "snd p" if p: "p \<in> set xs" for p
      proof (rule ccontr)
        assume "\<not> snd p"
        with p have in_xs: "(fst p, False) \<in> set xs"
          by (metis prod.collapse)
        with st have in_steps: "(fst p, False) \<in> set steps"
          by simp
        from fails [OF this] obtain i where "fst p = StartThread i"
          by blast
        with in_steps have "(StartThread i, False) \<in> set (pool_steps (trace w'))"
          by (simp add: steps_def)
        from pool_steps_failed_start [OF this] zero show False
          by blast
      qed
      then have "xs = succeeded (map fst xs)"
        by (intro all_succeeded) blast
      with m have "xs = succeeded pool_threads"
        by simp
      with st show ?thesis
        by (simp add: full_def pool_built_def succeeded_simps)
    qed
    from mf fails all show ?thesis
      by simp
  next
    assume "\<exists>xs. pool_steps (trace w') = pool_steps (trace (initial_world scr)) @ xs
      \<and> prefix (map fst xs) (Connect # pool_contexts @ pool_threads)"
    with e have pre: "prefix (map fst steps) (Connect # pool_contexts @ pool_threads)"
      by (auto simp: steps_def)
    then have "prefix (map fst steps) ((Connect # pool_contexts @ pool_threads) @ [StartChecker])"
      by (rule prefix_prefix)
    then have p: "prefix (map fst steps) full"
      by (simp add: full_def pool_built_def)
    have "Fprintf ''** Starting submission queue checker\<newline>'' [] \<notin> set (trace w')"
    proof
      assume "Fprintf ''** Starting submission queue checker\<newline>'' [] \<in> set (trace w')"
      then have "(StartChecker, True) \<in> set steps"
        unfolding steps_def by (rule pool_steps_starting)
      then have "StartChecker \<in> set (map fst steps)"
        by force
      with set_mono_prefix [OF pre] no_checker_before show False
        by blast
    qed
    with p show ?thesis
      by simp
  qed
  then show ?thesis
    unfolding steps_def full_def pool_complete .
qed

theorem worker_pool_size_witness:
  "map_option (\<lambda>(out, w). (out, pool_steps (trace w)))
     (main (initial_world (sample_startup @
        [RInt 0, RInt 0, RInt 0, RInt 0, RInt 0,
         RJob (Some sample_none), RSignal SIGTERM, RInt 1,
         RInt 0, RInt 0, RInt 0, RInt 0, RInt 0, RInt 0, RInt 0]))) =
     Some (Return 0, succeeded
       [Connect,
        AllocContext 0, Connect, AllocContext 1, Connect, AllocContext 2, Connect,
        AllocContext 3, Connect, AllocContext 4, Connect,
        StartThread 0, StartThread 1, StartThread 2, StartThread 3, StartThread 4,
        StartChecker])"
proof -
  define scr where "scr = sample_startup @
        [RInt 0, RInt 0, RInt 0, RInt 0, RInt 0,
         RJob (Some sample_none), RSignal SIGTERM, RInt 1,
         RInt 0, RInt 0, RInt 0, RInt 0, RInt 0, RInt 0, RInt 0]"
  have "map_option (\<lambda>(out, w). (out,
       Fprintf ''** Starting submission queue checker\<newline>'' [] \<in> set (trace w),
       list_all (\<lambda>e. case e of PthreadCreate i r \<Rightarrow> r = 0 | _ \<Rightarrow> True) (trace w)))
     (main (initial_world scr)) = Some (Return 0, True, True)"
    unfolding scr_def by code_simp
  then obtain w' where r: "main (initial_world scr) = Some (Return 0, w')"
    and s: "Fprintf ''** Starting submission queue checker\<newline>'' [] \<in> set (trace w')"
    and z: "list_all (\<lambda>e. case e of PthreadCreate i r \<Rightarrow> r = 0 | _ \<Rightarrow> True) (trace w')"
    by auto
  have "r = 0" if "PthreadCreate i r \<in> set (trace w')" for i r
    using z that by (auto simp: list_all_iff)
  with worker_pool_size [OF r] r s show ?thesis
    unfolding scr_def by simp
qed

text \<open>
  C8 as stated has \<^verbatim>\<open>main\<close> always allocate 5 contexts, open 5 connections and
  start 5 threads. Here the connection of worker 0 fails: \<^verbatim>\<open>main\<close> returns 2 with
  one context, no connection of a worker and no thread.
\<close>

theorem worker_pool_short_counterexample:
  "map_option (\<lambda>(out, w). (out, pool_steps (trace w)))
     (main (initial_world
        [RConfig [(''xsltpath'', ''/usr/share/rteval''), (''reportdir'', ''/var/lib/rteval/reports'')],
         RPtr 1, RPtr 2, RData ''10\<newline>'', RInt 3, RPtr 100,
         RPtr 10, RPtr 11, RPtr 12,
         RPtr 20, RPtr 0,
         RInt 0, RInt 0])) =
     Some (Return 2, [(Connect, True), (AllocContext 0, True), (Connect, False)])"
  by code_simp

subsection \<open>The template path and the exit\<close>

lemma xsltParseStylesheetFile_own:
  assumes "xsltParseStylesheetFile path w = Some (x, w')"
  shows "own_events (trace w') = own_events (trace w) @ [XsltParseStylesheetFile path x]"
  using assms
  by (auto simp: xsltParseStylesheetFile_def own_simps
      split: option.splits prod.splits response.splits dest: await_own)

text \<open>
  C10. The path handed to the stylesheet parser is the first 511 characters of the
  directory, a slash and \<^verbatim>\<open>xmlparser.xsl\<close>; it fits the array of 2050 characters.
  When the full path is longer than 511 characters the parser gets a path of exactly 511
  characters that is not the full path, and the call is all that happens: nothing is
  logged. A full path of at most 511 characters is handed over as it is.
\<close>

theorem xsltfile_truncated:
  assumes "parse_template cfg w = Some (x, path, w')"
    and "eGet_value cfg ''xsltpath'' = Some dir"
  shows "path = take 511 (dir @ ''/xmlparser.xsl'')
    \<and> length path \<le> 511 \<and> length path < 2050
    \<and> own_events (trace w') = own_events (trace w) @ [XsltParseStylesheetFile path x]
    \<and> (511 < length (dir @ ''/xmlparser.xsl'') \<longrightarrow>
          length path = 511 \<and> path \<noteq> dir @ ''/xmlparser.xsl'')
    \<and> (length (dir @ ''/xmlparser.xsl'') \<le> 511 \<longrightarrow> path = dir @ ''/xmlparser.xsl'')"
proof -
  define full where "full = dir @ ''/xmlparser.xsl''"
  from assms(1) obtain w1 where
    call: "xsltParseStylesheetFile
             (snprintf_path 512 (eGet_value cfg ''xsltpath'') XMLPARSER_XSL) w = Some (x, w1)"
    and path: "path = snprintf_path 512 (eGet_value cfg ''xsltpath'') XMLPARSER_XSL"
    and w': "w' = w1"
    by (auto simp: parse_template_def Let_def split: Option.bind_splits)
  from path assms(2) have p: "path = take 511 full"
    by (simp add: snprintf_path_def percent_s_def XMLPARSER_XSL_def full_def)
  from xsltParseStylesheetFile_own [OF call] path w'
  have tr: "own_events (trace w') = own_events (trace w) @ [XsltParseStylesheetFile path x]"
    by simp
  have long: "length path = 511 \<and> path \<noteq> full" if "511 < length full"
  proof -
    from that p have "length path = 511"
      by simp
    with that show ?thesis
      by auto
  qed
  have short: "path = full" if "length full \<le> 511"
    using that p by simp
  from p have "length path \<le> 511"
    by simp
  with p tr long short show ?thesis
    unfolding full_def by simp
qed

theorem xsltfile_truncated_witness:
  "map_option (\<lambda>(x, path, w). (x, path))
     (parse_template [(''xsltpath'', replicate 600 (CHR ''d''))] (initial_world [RPtr 1])) =
     Some (1, replicate 511 (CHR ''d''))
   \<and> eGet_value [(''xsltpath'', replicate 600 (CHR ''d''))] ''xsltpath'' =
       Some (replicate 600 (CHR ''d''))
   \<and> 511 < length (replicate 600 (CHR ''d'') @ ''/xmlparser.xsl'')
   \<and> replicate 511 (CHR ''d'') \<noteq> replicate 600 (CHR ''d'') @ ''/xmlparser.xsl''"
proof -
  define cfg where "cfg = [(''xsltpath'', replicate 600 (CHR ''d''))]"
  have run: "map_option (\<lambda>(x, path, w). (x, path))
     (parse_template cfg (initial_world [RPtr 1])) = Some (1, replicate 511 (CHR ''d''))"
    unfolding cfg_def by code_simp
  then obtain w' where
    r: "parse_template cfg (initial_world [RPtr 1]) = Some (1, replicate 511 (CHR ''d''), w')"
    by auto
  have g: "eGet_value cfg ''xsltpath'' = Some (replicate 600 (CHR ''d''))"
    by (simp add: cfg_def eGet_value_def)
  have len: "511 < length (replicate 600 (CHR ''d'') @ ''/xmlparser.xsl'')"
    by simp
  from xsltfile_truncated [OF r g] len
  have "replicate 511 (CHR ''d'') \<noteq> replicate 600 (CHR ''d'') @ ''/xmlparser.xsl''"
    by blast
  with run g len show ?thesis
    unfolding cfg_def by (intro conjI)
qed

text \<open>
  C4 fails on the code. When the connection of worker 1 fails, no thread has been
  started, and the code at the exit still joins the thread of slot 0, whose handle is
  allocated. When the template does not parse, the code at the exit reads
  \<^verbatim>\<open>thrdata\<close>, which has no value yet.
\<close>

theorem exit_joins_unstarted_thread:
  "map_option (\<lambda>(out, w). (out, PthreadJoin 0 3 \<in> set (trace w), pool_steps (trace w)))
     (main (initial_world (take 13 sample_startup @ [RPtr 21, RPtr 0, RInt 3, RInt 0, RInt 0]))) =
     Some (Return 2, True,
       [(Connect, True), (AllocContext 0, True), (Connect, True),
        (AllocContext 1, True), (Connect, False)])
   \<and> map_option fst (main (initial_world [RConfig [(''xsltpath'', ''/usr/share/rteval'')], RPtr 0])) =
     Some UndefinedBehaviour"
  by code_simp

text \<open>
  C5 fails on the code. \<^verbatim>\<open>pthread_create\<close> reports a failure with a positive error
  number, and the test \<^verbatim>\<open>thr_rc < 0\<close> does not see it: with the error 11 for worker 0,
  nothing is logged, the poller runs, and \<^verbatim>\<open>main\<close> returns 0 after a clean shutdown.
\<close>

theorem thread_start_failure_ignored:
  "map_option (\<lambda>(out, w). (out, PthreadCreate 0 11 \<in> set (trace w),
       Fprintf ''** ERROR **  Failed to start thread %i: %s'' [ArgI 0, ArgErr 11] \<in> set (trace w)))
     (main (initial_world (sample_startup @
        [RInt 11, RInt 0, RInt 0, RInt 0, RInt 0,
         RJob (Some sample_none), RSignal SIGTERM, RInt 1,
         RInt 3, RInt 0, RInt 0, RInt 0, RInt 0, RInt 0, RInt 0]))) =
     Some (Return 0, True, False)"
  by code_simp

end
